theory Spec2Isabelle
  imports Complex_Main
begin

section \<open>core.py: candles, the ring buffer per timeframe, the store\<close>

text \<open>
  A \<open>datetime\<close> of the source is always built from an integer number of seconds
  (\<open>datetime.fromtimestamp(int(row[0]))\<close>), so it is an \<open>int\<close>: seconds since the epoch, UTC.
  A \<open>Decimal\<close> is a \<open>rat\<close>: comparisons of decimals are exact, and the sums and products
  the strategy forms are exact as long as they fit the 28 significant digits of the
  decimal context.
\<close>

type_synonym datetime = int
type_synonym decimal = rat

datatype error = FetchError | KeyError | IndexError

record candle =
  c_time :: datetime
  c_open :: decimal
  c_high :: decimal
  c_low :: decimal
  c_close :: decimal
  c_volume :: decimal
  c_vwap :: decimal
  c_trades :: int

text \<open>
  \<open>deque(maxlen=capacity).append(x)\<close>: the element goes to the right end and, when the
  deque is full, the leftmost one is dropped; with \<open>maxlen = 0\<close> the deque stays empty.
\<close>

definition dq_append :: "nat \<Rightarrow> 'a list \<Rightarrow> 'a \<Rightarrow> 'a list" where
  "dq_append cap xs x = (let ys = xs @ [x] in drop (length ys - cap) ys)"

text \<open>\<open>CandleSeries\<close>: eight parallel deques, one per field.\<close>

record candle_series =
  capacity :: nat
  times_dq :: "datetime list"
  opens :: "decimal list"
  highs :: "decimal list"
  lows :: "decimal list"
  closes :: "decimal list"
  vols :: "decimal list"
  vwaps :: "decimal list"
  trades :: "int list"

definition new_series :: "nat \<Rightarrow> candle_series" where
  "new_series cap = \<lparr>capacity = cap, times_dq = [], opens = [], highs = [], lows = [],
     closes = [], vols = [], vwaps = [], trades = []\<rparr>"

text \<open>\<open>CandleSeries.append\<close>: eight unconditional appends.\<close>

definition series_append :: "candle_series \<Rightarrow> candle \<Rightarrow> candle_series" where
  "series_append s c = s\<lparr>
     times_dq := dq_append (capacity s) (times_dq s) (c_time c),
     opens := dq_append (capacity s) (opens s) (c_open c),
     highs := dq_append (capacity s) (highs s) (c_high c),
     lows := dq_append (capacity s) (lows s) (c_low c),
     closes := dq_append (capacity s) (closes s) (c_close c),
     vols := dq_append (capacity s) (vols s) (c_volume c),
     vwaps := dq_append (capacity s) (vwaps s) (c_vwap c),
     trades := dq_append (capacity s) (trades s) (c_trades c)\<rparr>"

definition last_time :: "candle_series \<Rightarrow> datetime option" where
  "last_time s = (if times_dq s = [] then None else Some (last (times_dq s)))"

definition series_len :: "candle_series \<Rightarrow> nat" where
  "series_len s = length (times_dq s)"

text \<open>The record held at slot \<open>i\<close> of a series, read across the eight deques.\<close>

definition candle_at :: "candle_series \<Rightarrow> nat \<Rightarrow> candle" where
  "candle_at s i = \<lparr>c_time = times_dq s ! i, c_open = opens s ! i, c_high = highs s ! i,
     c_low = lows s ! i, c_close = closes s ! i, c_volume = vols s ! i,
     c_vwap = vwaps s ! i, c_trades = trades s ! i\<rparr>"

definition candles_of :: "candle_series \<Rightarrow> candle list" where
  "candles_of s = map (candle_at s) [0..<series_len s]"

text \<open>The eight deques of a series grow in lockstep and never exceed the capacity.\<close>

definition wf_series :: "candle_series \<Rightarrow> bool" where
  "wf_series s \<longleftrightarrow>
     length (times_dq s) \<le> capacity s \<and>
     length (opens s) = length (times_dq s) \<and> length (highs s) = length (times_dq s) \<and>
     length (lows s) = length (times_dq s) \<and> length (closes s) = length (times_dq s) \<and>
     length (vols s) = length (times_dq s) \<and> length (vwaps s) = length (times_dq s) \<and>
     length (trades s) = length (times_dq s)"

text \<open>\<open>CandleStore\<close>: a dict from timeframe name to its series.\<close>

type_synonym candle_store = "string \<rightharpoonup> candle_series"

text \<open>\<open>CandleStore.__init__\<close>: one empty series of \<open>cfg.buffer\<close> slots per configured interval.\<close>

definition new_store :: "nat \<Rightarrow> (string \<times> nat) list \<Rightarrow> candle_store" where
  "new_store buffer intervals = map_of (map (\<lambda>(tf, m). (tf, new_series buffer)) intervals)"

text \<open>\<open>CandleStore.append\<close>: \<open>self.series[tf].append(c)\<close>; an unknown timeframe is a KeyError.\<close>

definition store_append :: "candle_store \<Rightarrow> string \<Rightarrow> candle \<Rightarrow> error + candle_store" where
  "store_append st tf c =
     (case st tf of None \<Rightarrow> Inl KeyError | Some s \<Rightarrow> Inr (st(tf \<mapsto> series_append s c)))"

definition store_last_time :: "candle_store \<Rightarrow> string \<Rightarrow> error + datetime option" where
  "store_last_time st tf = (case st tf of None \<Rightarrow> Inl KeyError | Some s \<Rightarrow> Inr (last_time s))"

section \<open>data.py: the incremental feed\<close>

text \<open>
  The filter of \<open>poll_once\<close>, \<open>verify_last5_and_fix\<close> and \<open>CandleRecorder\<close>: a candle is
  closed and valid when it starts before the current wall-clock minute and has trades
  and volume.
\<close>

definition closed_valid :: "datetime \<Rightarrow> candle \<Rightarrow> bool" where
  "closed_valid now_min c \<longleftrightarrow> c_time c < now_min \<and> c_trades c > 0 \<and> c_volume c > 0"

text \<open>
  The upstream: what \<open>client.get_ohlc(pair, minutes, since)\<close> answers to the request made
  for a timeframe, a list of candles or a failure.
\<close>

type_synonym upstream = "string \<Rightarrow> nat \<Rightarrow> int option \<Rightarrow> error + candle list"

record feed_state =
  store :: candle_store
  last_ts :: "string \<Rightarrow> int option"

text \<open>
  The inner loop of \<open>poll_once\<close>:
  \<^verbatim>\<open>for c in safe:
      if (last_time is None) or (c.time > last_time):
          self.store.append(tf, c); last_time = c.time\<close>
\<close>

fun accept :: "string \<Rightarrow> candle list \<Rightarrow> candle_store \<Rightarrow> datetime option
    \<Rightarrow> error + candle_store \<times> datetime option" where
  "accept tf [] st lt = Inr (st, lt)"
| "accept tf (c # cs) st lt =
     (if (case lt of None \<Rightarrow> True | Some t \<Rightarrow> c_time c > t)
      then (case store_append st tf c of
              Inl e \<Rightarrow> Inl e
            | Inr st' \<Rightarrow> accept tf cs st' (Some (c_time c)))
      else accept tf cs st lt)"

text \<open>
  One iteration of \<open>for tf, minutes in self.cfg.intervals.items()\<close>. A failure (of the
  fetch, or of the lookup of the timeframe in the store) happens before the iteration
  has changed anything.
\<close>

definition poll_tf :: "datetime \<Rightarrow> upstream \<Rightarrow> string \<times> nat \<Rightarrow> feed_state \<Rightarrow> error + feed_state" where
  "poll_tf now_min up i fs =
     (case i of (tf, minutes) \<Rightarrow>
        (case up tf minutes (last_ts fs tf) of
           Inl e \<Rightarrow> Inl e
         | Inr candles \<Rightarrow>
             (let safe = filter (closed_valid now_min) candles in
              case store_last_time (store fs) tf of
                Inl e \<Rightarrow> Inl e
              | Inr lt0 \<Rightarrow>
                  (case accept tf safe (store fs) lt0 of
                     Inl e \<Rightarrow> Inl e
                   | Inr (st', lt) \<Rightarrow>
                       Inr (fs\<lparr>store := st',
                              last_ts := (case lt of None \<Rightarrow> last_ts fs
                                          | Some t \<Rightarrow> (last_ts fs)(tf := Some t))\<rparr>)))))"

text \<open>
  \<open>DataFeed.poll_once\<close>: the loop over the intervals. An exception leaves the loop; what
  the earlier iterations stored stays stored, so the result is the state reached
  together with the error, if any.
\<close>

fun poll_once :: "datetime \<Rightarrow> upstream \<Rightarrow> (string \<times> nat) list \<Rightarrow> feed_state
    \<Rightarrow> error option \<times> feed_state" where
  "poll_once now_min up [] fs = (None, fs)"
| "poll_once now_min up (i # is) fs =
     (case poll_tf now_min up i fs of
        Inl e \<Rightarrow> (Some e, fs)
      | Inr fs' \<Rightarrow> poll_once now_min up is fs')"

section \<open>strategies.py: the breakout strategy\<close>

datatype side = Long | Short

datatype outcome = Win | Loss

record position =
  side :: side
  entry :: decimal
  stop :: decimal
  target :: decimal
  capital :: decimal
  opened_at :: datetime
  exit_price :: "decimal option"
  closed_at :: "datetime option"
  outcome :: "outcome option"

text \<open>
  The journal is the list of rows written by \<open>Journal.log_entry\<close> and \<open>Journal.log_exit\<close>:
  the position as it is when the row is written, and the note of the row
  (\<open>entered basis=OPEN\<close> or \<open>entered basis=CLOSE\<close> on entry, \<open>exit\<close> on exit). The lines
  sent to \<open>ui.log\<close> are kept by their content, without the formatting of the local time.
\<close>

datatype journal_row = LogEntry position string | LogExit position string

datatype log_msg =
    EnterMsg side decimal decimal decimal decimal datetime string
  | ExitMsg outcome decimal datetime

text \<open>
  \<open>BreakoutStrategy\<close>. The module constant \<open>PRIORITIZE_STOP_ON_TIE\<close> is a field, so that
  both settings can be stated; \<open>ui_levels\<close> is what the chart holds after
  \<open>set_position_levels\<close> and \<open>clear_position_levels\<close>.
\<close>

record strategy =
  ref_utc :: datetime
  blue_high :: "decimal option"
  blue_low :: "decimal option"
  active :: "position option"
  max_positions :: int
  risk_step :: decimal
  rr :: decimal
  trade_capital :: decimal
  prioritize_stop_on_tie :: bool
  journal :: "journal_row list"
  ui_levels :: "(decimal \<times> decimal \<times> decimal \<times> side) option"
  ui_log :: "log_msg list"

text \<open>\<open>BreakoutStrategy.__init__\<close> with the constants of the module.\<close>

definition new_strategy :: "datetime \<Rightarrow> strategy" where
  "new_strategy ref = \<lparr>ref_utc = ref, blue_high = None, blue_low = None, active = None,
     max_positions = 1, risk_step = 1 / 1000, rr = 2, trade_capital = 100,
     prioritize_stop_on_tie = True, journal = [], ui_levels = None, ui_log = []\<rparr>"

definition set_blue :: "decimal \<Rightarrow> decimal \<Rightarrow> strategy \<Rightarrow> strategy" where
  "set_blue h l s = s\<lparr>blue_high := Some h, blue_low := Some l\<rparr>"

text \<open>\<open>BreakoutStrategy._exit\<close>\<close>

definition strategy_exit :: "outcome \<Rightarrow> decimal \<Rightarrow> datetime \<Rightarrow> strategy \<Rightarrow> strategy" where
  "strategy_exit oc price ts s =
     (case active s of
        None \<Rightarrow> s
      | Some p \<Rightarrow>
          (let p' = p\<lparr>exit_price := Some price, outcome := Some oc, closed_at := Some ts\<rparr>
           in s\<lparr>journal := journal s @ [LogExit p' ''exit''],
                ui_log := ui_log s @ [ExitMsg oc price ts],
                ui_levels := None,
                active := None\<rparr>))"

text \<open>\<open>BreakoutStrategy.on_live_price\<close>\<close>

definition on_live_price :: "decimal \<Rightarrow> datetime \<Rightarrow> strategy \<Rightarrow> strategy" where
  "on_live_price price ts s =
     (case active s of
        None \<Rightarrow> s
      | Some p \<Rightarrow>
          (if side p = Long then
             (if price \<ge> target p then strategy_exit Win (target p) ts s
              else if price \<le> stop p then strategy_exit Loss (stop p) ts s
              else s)
           else
             (if price \<le> target p then strategy_exit Win (target p) ts s
              else if price \<ge> stop p then strategy_exit Loss (stop p) ts s
              else s)))"

text \<open>
  \<open>str.strip()\<close>: leading and trailing whitespace removed. The whitespace characters are
  those of ASCII (space, tab, line feed, vertical tab, form feed, carriage return and
  the four separators 0x1C to 0x1F).
\<close>

definition is_space :: "char \<Rightarrow> bool" where
  "is_space c \<longleftrightarrow> c \<in> set [CHR '' '', CHR 0x09, CHR 0x0A, CHR 0x0B, CHR 0x0C, CHR 0x0D,
     CHR 0x1C, CHR 0x1D, CHR 0x1E, CHR 0x1F]"

definition strip :: "string \<Rightarrow> string" where
  "strip str = rev (dropWhile is_space (rev (dropWhile is_space str)))"

text \<open>
  \<open>BreakoutStrategy._enter\<close>. The line sent to \<open>ui.log\<close> carries the note as given; the
  journal row carries \<open>("entered " + note).strip()\<close>.
\<close>

definition strategy_enter :: "side \<Rightarrow> decimal \<Rightarrow> datetime \<Rightarrow> string \<Rightarrow> strategy \<Rightarrow> strategy" where
  "strategy_enter sd price ts note s =
     (if active s \<noteq> None then s
      else if max_positions s < 1 then s
      else
        (let e = price;
             st = (if sd = Long then e - risk_step s else e + risk_step s);
             tg = (if sd = Long then e + rr s * risk_step s else e - rr s * risk_step s);
             p = \<lparr>side = sd, entry = e, stop = st, target = tg, capital = trade_capital s,
                  opened_at = ts, exit_price = None, closed_at = None, outcome = None\<rparr>
         in s\<lparr>active := Some p,
              ui_levels := Some (e, st, tg, sd),
              ui_log := ui_log s @ [EnterMsg sd e st tg (trade_capital s) ts note],
              journal := journal s @ [LogEntry p (strip (''entered '' @ note))]\<rparr>))"

text \<open>\<open>BreakoutStrategy._manage_position\<close>\<close>

definition manage_position :: "candle \<Rightarrow> strategy \<Rightarrow> strategy" where
  "manage_position c s =
     (case active s of
        None \<Rightarrow> s
      | Some p \<Rightarrow>
          (let hit_stop = (if side p = Long then c_low c \<le> stop p else c_high c \<ge> stop p);
               hit_target = (if side p = Long then c_high c \<ge> target p else c_low c \<le> target p)
           in if prioritize_stop_on_tie s then
                (if hit_stop then (strategy_exit Loss (stop p) (c_time c) s)\<lparr>ui_levels := None\<rparr>
                 else if hit_target then (strategy_exit Win (target p) (c_time c) s)\<lparr>ui_levels := None\<rparr>
                 else s)
              else
                (if hit_target then (strategy_exit Win (target p) (c_time c) s)\<lparr>ui_levels := None\<rparr>
                 else if hit_stop then (strategy_exit Loss (stop p) (c_time c) s)\<lparr>ui_levels := None\<rparr>
                 else s)))"

text \<open>\<open>BreakoutStrategy.on_new_close\<close>\<close>

definition on_new_close :: "candle \<Rightarrow> strategy \<Rightarrow> strategy" where
  "on_new_close c s =
     (if c_time c < ref_utc s then s
      else
        (case (blue_high s, blue_low s) of
           (Some bh, Some bl) \<Rightarrow>
             (if active s \<noteq> None then manage_position c s
              else if max_positions s \<le> 0 then s
              else if c_open c > bh \<or> c_close c > bh then
                (if c_open c > bh
                 then strategy_enter Long (c_open c) (c_time c) ''basis=OPEN'' s
                 else strategy_enter Long (c_close c) (c_time c) ''basis=CLOSE'' s)
              else if c_open c < bl \<or> c_close c < bl then
                (if c_open c < bl
                 then strategy_enter Short (c_open c) (c_time c) ''basis=OPEN'' s
                 else strategy_enter Short (c_close c) (c_time c) ''basis=CLOSE'' s)
              else s)
         | _ \<Rightarrow> s))"

text \<open>The events the engine receives, and a run over a sequence of them.\<close>

datatype event = NewClose candle | LivePrice decimal datetime | SetBlue decimal decimal

fun step :: "event \<Rightarrow> strategy \<Rightarrow> strategy" where
  "step (NewClose c) s = on_new_close c s"
| "step (LivePrice price ts) s = on_live_price price ts s"
| "step (SetBlue h l) s = set_blue h l s"

fun run :: "event list \<Rightarrow> strategy \<Rightarrow> strategy" where
  "run [] s = s"
| "run (e # es) s = run es (step e s)"

section \<open>tradebot.py: the start of main and the verifier\<close>

text \<open>Python's \<open>xs[-k:]\<close> for \<open>k > 0\<close>: the last \<open>k\<close> elements, all of them when there are fewer.\<close>

definition lastn :: "nat \<Rightarrow> 'a list \<Rightarrow> 'a list" where
  "lastn k xs = drop (length xs - k) xs"

text \<open>\<open>for c in cs: store.append(tf, c)\<close>\<close>

fun append_all :: "candle_store \<Rightarrow> string \<Rightarrow> candle list \<Rightarrow> error + candle_store" where
  "append_all st tf [] = Inr st"
| "append_all st tf (c # cs) =
     (case store_append st tf c of Inl e \<Rightarrow> Inl e | Inr st' \<Rightarrow> append_all st' tf cs)"

text \<open>
  The start of \<open>main\<close>, from the creation of the store to the watermark handed to the
  poll loop: the priming with the last 10 candles up to the effective reference time
  and the backfill after it. \<open>now_closed\<close> is the wall-clock minute at the start;
  \<open>fetch1\<close> and \<open>fetch2\<close> are the answers of the two \<open>get_ohlc\<close> calls to the \<open>since\<close>
  they are given. A failed fetch ends \<open>main\<close>. The recorder, which only writes a file,
  is left out.
\<close>

definition main_startup :: "datetime \<Rightarrow> datetime \<Rightarrow> (int \<Rightarrow> error + candle list)
    \<Rightarrow> (int \<Rightarrow> error + candle list) \<Rightarrow> error + feed_state" where
  "main_startup ref now_closed fetch1 fetch2 =
     (let store0 = new_store 1000 [(''1m'', 1)];
          eff_ref_utc = min ref now_closed;
          since_ts = eff_ref_utc - 15 * 60
      in case fetch1 since_ts of
           Inl e \<Rightarrow> Inl e
         | Inr cs1 \<Rightarrow>
             (let primed = lastn 10 (filter (\<lambda>c. c_time c \<le> eff_ref_utc) cs1)
              in case append_all store0 ''1m'' primed of
                   Inl e \<Rightarrow> Inl e
                 | Inr store1 \<Rightarrow>
                     (let post_since = (if primed \<noteq> [] then c_time (last primed) else eff_ref_utc)
                      in case fetch2 post_since of
                           Inl e \<Rightarrow> Inl e
                         | Inr cs2 \<Rightarrow>
                             (let post = filter (\<lambda>c. c_time c > post_since) cs2
                              in case append_all store1 ''1m'' post of
                                   Inl e \<Rightarrow> Inl e
                                 | Inr store2 \<Rightarrow>
                                     (case store2 ''1m'' of
                                        None \<Rightarrow> Inl KeyError
                                      | Some s1 \<Rightarrow>
                                          Inr \<lparr>store = store2,
                                               last_ts = (\<lambda>tf. None)(''1m'' :=
                                                 Some (case last_time s1 of
                                                         Some t \<Rightarrow> t
                                                       | None \<Rightarrow> eff_ref_utc))\<rparr>)))))"

text \<open>
  \<open>_neq\<close> of \<open>verify_last5_and_fix\<close> is \<open>abs(float(a) - float(b)) > 1e-9\<close>, computed in
  binary floating point. That arithmetic belongs to the language, not to the repository,
  and is not modelled: the comparison is a parameter \<open>neq\<close> of the verifier, and what is
  proved of the verifier holds for every comparison.
\<close>

type_synonym float_neq = "rat \<Rightarrow> rat \<Rightarrow> bool"

text \<open>Reading and writing a deque by index: out of range is an IndexError.\<close>

definition dq_get :: "'a list \<Rightarrow> nat \<Rightarrow> error + 'a" where
  "dq_get xs i = (if i < length xs then Inr (xs ! i) else Inl IndexError)"

definition dq_set :: "'a list \<Rightarrow> nat \<Rightarrow> 'a \<Rightarrow> error + 'a list" where
  "dq_set xs i v = (if i < length xs then Inr (xs[i := v]) else Inl IndexError)"

text \<open>Python's \<open>or\<close>: the right operand is evaluated only when the left one is false.\<close>

definition or_else :: "error + bool \<Rightarrow> error + bool \<Rightarrow> error + bool" where
  "or_else a b = (case a of Inl e \<Rightarrow> Inl e | Inr x \<Rightarrow> (if x then Inr True else b))"

definition field_neq :: "float_neq \<Rightarrow> decimal list \<Rightarrow> nat \<Rightarrow> decimal \<Rightarrow> error + bool" where
  "field_neq neq xs idx v = (case dq_get xs idx of Inl e \<Rightarrow> Inl e | Inr x \<Rightarrow> Inr (neq x v))"

definition time_neq :: "float_neq \<Rightarrow> datetime list \<Rightarrow> nat \<Rightarrow> datetime \<Rightarrow> error + bool" where
  "time_neq neq xs idx v =
     (case dq_get xs idx of Inl e \<Rightarrow> Inl e | Inr x \<Rightarrow> Inr (neq (of_int x) (of_int v)))"

definition trades_neq :: "int list \<Rightarrow> nat \<Rightarrow> int \<Rightarrow> error + bool" where
  "trades_neq xs idx v = (case dq_get xs idx of Inl e \<Rightarrow> Inl e | Inr x \<Rightarrow> Inr (x \<noteq> v))"

text \<open>The condition under which slot \<open>idx\<close> is added to \<open>mismatches\<close>.\<close>

definition mismatch :: "float_neq \<Rightarrow> candle_series \<Rightarrow> nat \<Rightarrow> candle \<Rightarrow> error + bool" where
  "mismatch neq s1 idx a =
     or_else (time_neq neq (times_dq s1) idx (c_time a))
    (or_else (field_neq neq (opens s1) idx (c_open a))
    (or_else (field_neq neq (highs s1) idx (c_high a))
    (or_else (field_neq neq (lows s1) idx (c_low a))
    (or_else (field_neq neq (closes s1) idx (c_close a))
    (or_else (field_neq neq (vols s1) idx (c_volume a))
             (trades_neq (trades s1) idx (c_trades a)))))))"

text \<open>The comparison loop over \<open>enumerate(idxs)\<close>, building \<open>mismatches\<close>.\<close>

fun find_mismatches :: "float_neq \<Rightarrow> candle_series \<Rightarrow> (nat \<times> candle) list
    \<Rightarrow> error + (nat \<times> candle) list" where
  "find_mismatches neq s1 [] = Inr []"
| "find_mismatches neq s1 ((idx, a) # rest) =
     (case mismatch neq s1 idx a of
        Inl e \<Rightarrow> Inl e
      | Inr m \<Rightarrow>
          (case find_mismatches neq s1 rest of
             Inl e \<Rightarrow> Inl e
           | Inr ms \<Rightarrow> Inr (if m then (idx, a) # ms else ms)))"

text \<open>
  The eight assignments that patch one slot, in the order of the source. An assignment
  that raises leaves the earlier ones done.
\<close>

fun run_steps :: "('s \<Rightarrow> error + 's) list \<Rightarrow> 's \<Rightarrow> 's \<times> error option" where
  "run_steps [] s = (s, None)"
| "run_steps (f # fs) s = (case f s of Inl e \<Rightarrow> (s, Some e) | Inr s' \<Rightarrow> run_steps fs s')"

definition patch_slot :: "nat \<Rightarrow> candle \<Rightarrow> candle_series \<Rightarrow> candle_series \<times> error option" where
  "patch_slot idx a = run_steps
     [\<lambda>s. map_sum id (\<lambda>xs. s\<lparr>opens := xs\<rparr>) (dq_set (opens s) idx (c_open a)),
      \<lambda>s. map_sum id (\<lambda>xs. s\<lparr>highs := xs\<rparr>) (dq_set (highs s) idx (c_high a)),
      \<lambda>s. map_sum id (\<lambda>xs. s\<lparr>lows := xs\<rparr>) (dq_set (lows s) idx (c_low a)),
      \<lambda>s. map_sum id (\<lambda>xs. s\<lparr>closes := xs\<rparr>) (dq_set (closes s) idx (c_close a)),
      \<lambda>s. map_sum id (\<lambda>xs. s\<lparr>vols := xs\<rparr>) (dq_set (vols s) idx (c_volume a)),
      \<lambda>s. map_sum id (\<lambda>xs. s\<lparr>vwaps := xs\<rparr>) (dq_set (vwaps s) idx (c_vwap a)),
      \<lambda>s. map_sum id (\<lambda>xs. s\<lparr>trades := xs\<rparr>) (dq_set (trades s) idx (c_trades a)),
      \<lambda>s. map_sum id (\<lambda>xs. s\<lparr>times_dq := xs\<rparr>) (dq_set (times_dq s) idx (c_time a))]"

text \<open>
  The patch loop: each mismatching slot is patched and a row is added to the corrections
  file (here the list of the candles written).
\<close>

fun patch_all :: "(nat \<times> candle) list \<Rightarrow> candle_series \<times> candle list
    \<Rightarrow> (candle_series \<times> candle list) \<times> error option" where
  "patch_all [] sc = (sc, None)"
| "patch_all ((idx, a) # rest) (s1, corr) =
     (case patch_slot idx a s1 of
        (s1', Some e) \<Rightarrow> ((s1', corr), Some e)
      | (s1', None) \<Rightarrow> patch_all rest (s1', corr @ [a]))"

text \<open>
  \<open>verify_last5_and_fix\<close>. \<open>fetched\<close> is the answer of \<open>get_ohlc\<close>; the state is the store
  and the corrections written so far; the result says which line the verifier logs.
\<close>

datatype verify_result = Skipped | Clean | Fixed nat | VerifyError error

definition verify_last5_and_fix :: "float_neq \<Rightarrow> datetime \<Rightarrow> error + candle list
    \<Rightarrow> candle_store \<times> candle list \<Rightarrow> verify_result \<times> (candle_store \<times> candle list)" where
  "verify_last5_and_fix neq now_min resp sc =
     (case sc of (st, corr) \<Rightarrow>
       (case resp of
          Inl e \<Rightarrow> (VerifyError e, sc)
        | Inr cs \<Rightarrow>
            (let fetched = lastn 5 (filter (closed_valid now_min) cs)
             in case st ''1m'' of
                  None \<Rightarrow> (VerifyError KeyError, sc)
                | Some s1 \<Rightarrow>
                    (if series_len s1 < 5 \<or> length fetched < 5 then (Skipped, sc)
                     else
                       (let idxs = [series_len s1 - 5 ..< series_len s1]
                        in case find_mismatches neq s1 (zip idxs fetched) of
                             Inl e \<Rightarrow> (VerifyError e, sc)
                           | Inr ms \<Rightarrow>
                               (if ms = [] then (Clean, sc)
                                else
                                  (case patch_all ms (s1, corr) of
                                     ((s1', corr'), None) \<Rightarrow>
                                       (Fixed (length ms), (st(''1m'' \<mapsto> s1'), corr'))
                                   | ((s1', corr'), Some e) \<Rightarrow>
                                       (VerifyError e, (st(''1m'' \<mapsto> s1'), corr')))))))))"

section \<open>Notions used by the properties\<close>

text \<open>A series is increasing when its timestamps are strictly increasing.\<close>

definition increasing :: "candle_series \<Rightarrow> bool" where
  "increasing s \<longleftrightarrow> sorted_wrt (<) (times_dq s)"

definition store_increasing :: "candle_store \<Rightarrow> bool" where
  "store_increasing st \<longleftrightarrow> (\<forall>s \<in> ran st. increasing s)"

text \<open>
  The poll loop of \<open>main\<close> calls \<open>poll_once\<close> again and again, whatever the previous call
  raised; each call has its own clock reading and its own answers from upstream.
\<close>

fun poll_many :: "(datetime \<times> upstream) list \<Rightarrow> (string \<times> nat) list \<Rightarrow> feed_state \<Rightarrow> feed_state" where
  "poll_many [] ivs fs = fs"
| "poll_many ((now_min, up) # calls) ivs fs = poll_many calls ivs (snd (poll_once now_min up ivs fs))"

text \<open>The loop variable \<open>last_time\<close> of \<open>poll_once\<close> bounds every stored timestamp.\<close>

definition bounded_by :: "candle_series \<Rightarrow> datetime option \<Rightarrow> bool" where
  "bounded_by s lt \<longleftrightarrow> (case lt of None \<Rightarrow> times_dq s = [] | Some t \<Rightarrow> (\<forall>x \<in> set (times_dq s). x \<le> t))"

text \<open>Example data: a candle that traded once at one price, a small feed, an upstream.\<close>

definition flat_candle :: "datetime \<Rightarrow> decimal \<Rightarrow> candle" where
  "flat_candle t px = \<lparr>c_time = t, c_open = px, c_high = px, c_low = px, c_close = px,
     c_volume = 1, c_vwap = px, c_trades = 1\<rparr>"

definition ex_feed :: feed_state where
  "ex_feed = \<lparr>store = [''1m'' \<mapsto> series_append (new_series 3) (flat_candle 120 1)],
     last_ts = (\<lambda>tf. None)\<rparr>"

definition ex_up :: upstream where
  "ex_up tf m since = Inr [flat_candle 60 2, flat_candle 120 2, flat_candle 180 2]"

text \<open>
  The records that one run of the inner loop of \<open>poll_once\<close> accepts, given the fetched
  and filtered records and the last stored timestamp it starts from.
\<close>

fun accepted :: "candle list \<Rightarrow> datetime option \<Rightarrow> candle list" where
  "accepted [] lt = []"
| "accepted (c # cs) lt =
     (if (case lt of None \<Rightarrow> True | Some t \<Rightarrow> c_time c > t)
      then c # accepted cs (Some (c_time c)) else accepted cs lt)"

text \<open>The watermark of a timeframe agrees with the last timestamp stored for it.\<close>

definition synced :: "feed_state \<Rightarrow> string \<Rightarrow> bool" where
  "synced fs tf \<longleftrightarrow>
     (case store fs tf of
        None \<Rightarrow> False
      | Some s \<Rightarrow> (case last_time s of None \<Rightarrow> True | Some t \<Rightarrow> last_ts fs tf = Some t))"

text \<open>
  Upstream has nothing new for the feed: whatever a fetch answers, none of its closed and
  valid records is newer than what the store already holds for that timeframe.
\<close>

definition no_new_data :: "datetime \<Rightarrow> upstream \<Rightarrow> (string \<times> nat) list \<Rightarrow> feed_state \<Rightarrow> bool" where
  "no_new_data now_min up ivs fs \<longleftrightarrow>
     (\<forall>(tf, m) \<in> set ivs.
        case up tf m (last_ts fs tf) of
          Inl e \<Rightarrow> True
        | Inr cs \<Rightarrow>
            (\<forall>c \<in> set cs. closed_valid now_min c \<longrightarrow>
               (case store fs tf of
                  None \<Rightarrow> True
                | Some s \<Rightarrow> (case last_time s of None \<Rightarrow> False | Some t \<Rightarrow> c_time c \<le> t))))"

text \<open>An upstream with nothing to report.\<close>

definition ex_up_empty :: upstream where
  "ex_up_empty tf m since = Inr []"

text \<open>
  The positions open according to the journal: rows written on entry minus rows written
  on exit.
\<close>

fun open_positions :: "journal_row list \<Rightarrow> int" where
  "open_positions [] = 0"
| "open_positions (LogEntry p n # rows) = open_positions rows + 1"
| "open_positions (LogExit p n # rows) = open_positions rows - 1"

text \<open>The journal agrees with the engine on whether a position is open.\<close>

definition consistent :: "strategy \<Rightarrow> bool" where
  "consistent s \<longleftrightarrow> open_positions (journal s) = (if active s = None then 0 else 1)"

text \<open>The exits and the entries recorded in a journal.\<close>

fun exits :: "journal_row list \<Rightarrow> position list" where
  "exits [] = []"
| "exits (LogEntry p n # rows) = exits rows"
| "exits (LogExit p n # rows) = p # exits rows"

fun entries :: "journal_row list \<Rightarrow> position list" where
  "entries [] = []"
| "entries (LogEntry p n # rows) = p # entries rows"
| "entries (LogExit p n # rows) = entries rows"

text \<open>Example data: an engine with the levels 1.050 and 1.040, and records to feed it.\<close>

definition ex_idle :: strategy where
  "ex_idle = set_blue 1.050 1.040 (new_strategy 0)"

definition ex_bar :: "datetime \<Rightarrow> decimal \<Rightarrow> decimal \<Rightarrow> decimal \<Rightarrow> decimal \<Rightarrow> candle" where
  "ex_bar t opn hi lo cl = \<lparr>c_time = t, c_open = opn, c_high = hi, c_low = lo, c_close = cl,
     c_volume = 1, c_vwap = cl, c_trades = 1\<rparr>"

definition ex_long :: strategy where
  "ex_long = on_new_close (ex_bar 60 1.060 1.061 1.0595 1.0605) ex_idle"


text \<open>
  Example data: the answers of upstream at a start of \<open>main\<close> at minute 600, five minutes
  after the reference time 300; the record stamped 600 is the one still in progress.
\<close>

definition ex_fetch1 :: "int \<Rightarrow> error + candle list" where
  "ex_fetch1 since = Inr [flat_candle 240 1, flat_candle 300 1]"

definition ex_fetch2 :: "int \<Rightarrow> error + candle list" where
  "ex_fetch2 since = Inr [flat_candle 300 1, flat_candle 360 1, flat_candle 420 1,
     flat_candle 480 1, flat_candle 540 1, flat_candle 600 1]"

text \<open>
  A stored slot differs from a fetched record in a field the verifier compares: the
  timestamp, open, high, low, close or volume under the comparison \<open>neq\<close>, or the trade
  count.
\<close>

definition differs :: "float_neq \<Rightarrow> candle_series \<Rightarrow> nat \<Rightarrow> candle \<Rightarrow> bool" where
  "differs neq s idx a \<longleftrightarrow>
     neq (of_int (times_dq s ! idx)) (of_int (c_time a)) \<or>
     neq (opens s ! idx) (c_open a) \<or> neq (highs s ! idx) (c_high a) \<or>
     neq (lows s ! idx) (c_low a) \<or> neq (closes s ! idx) (c_close a) \<or>
     neq (vols s ! idx) (c_volume a) \<or> trades s ! idx \<noteq> c_trades a"

text \<open>A slot with all eight fields overwritten by a record, and a series after a list of such patches.\<close>

definition patch1 :: "candle_series \<Rightarrow> nat \<Rightarrow> candle \<Rightarrow> candle_series" where
  "patch1 s idx a = s\<lparr>
     opens := (opens s)[idx := c_open a], highs := (highs s)[idx := c_high a],
     lows := (lows s)[idx := c_low a], closes := (closes s)[idx := c_close a],
     vols := (vols s)[idx := c_volume a], vwaps := (vwaps s)[idx := c_vwap a],
     trades := (trades s)[idx := c_trades a], times_dq := (times_dq s)[idx := c_time a]\<rparr>"

definition patched :: "candle_series \<Rightarrow> (nat \<times> candle) list \<Rightarrow> candle_series" where
  "patched s ms = foldl (\<lambda>s (idx, a). patch1 s idx a) s ms"

text \<open>
  The slots the verifier flags: the pairs of a slot among the last five and the fetched
  record at the same position that differ in a compared field.
\<close>

definition flagged :: "float_neq \<Rightarrow> datetime \<Rightarrow> candle list \<Rightarrow> candle_series \<Rightarrow> (nat \<times> candle) list" where
  "flagged neq now_min cs s1 =
     filter (\<lambda>(idx, a). differs neq s1 idx a)
       (zip [series_len s1 - 5 ..< series_len s1] (lastn 5 (filter (closed_valid now_min) cs)))"

text \<open>
  Example data: a series of six records, one per minute from 60 to 360, an exact
  comparison with the tolerance of the source, and three answers of upstream. The
  examples only compare values that are equal or far apart, where rounding to floating
  point changes nothing.
\<close>

definition ex_series6 :: candle_series where
  "ex_series6 = foldl series_append (new_series 10)
     [flat_candle 60 1, flat_candle 120 1, flat_candle 180 1, flat_candle 240 1,
      flat_candle 300 1, flat_candle 360 1]"

definition neq_exact :: float_neq where
  "neq_exact a b \<longleftrightarrow> \<bar>a - b\<bar> > 1 / 10 ^ 9"

definition ex_fetched_shift :: "candle list" where
  "ex_fetched_shift = [flat_candle 60 1, flat_candle 120 1, flat_candle 180 1,
     flat_candle 240 1, flat_candle 300 1, flat_candle 360 1]"

definition ex_fetched_vwap :: "candle list" where
  "ex_fetched_vwap = [flat_candle 120 1, flat_candle 180 1, flat_candle 240 1,
     flat_candle 300 1, (flat_candle 360 1)\<lparr>c_vwap := 2\<rparr>]"

definition ex_fetched_high :: "candle list" where
  "ex_fetched_high = [flat_candle 120 1, flat_candle 180 1, flat_candle 240 1,
     flat_candle 300 1, (flat_candle 360 1)\<lparr>c_high := 2\<rparr>]"

section \<open>Verified properties\<close>

subsection \<open>The ring buffer and the feed keep the series increasing\<close>

lemma sorted_wrt_dq_append:
  assumes "sorted_wrt (<) xs" and "\<forall>x \<in> set xs. x < (t::int)"
  shows "sorted_wrt (<) (dq_append cap xs t)"
proof -
  have "sorted_wrt (<) (xs @ [t])" using assms by (simp add: sorted_wrt_append)
  then show ?thesis unfolding dq_append_def Let_def by (rule sorted_wrt_drop)
qed

lemma set_dq_append: "set (dq_append cap xs t) \<subseteq> insert t (set xs)"
proof -
  have "set (drop (length (xs @ [t]) - cap) (xs @ [t])) \<subseteq> set (xs @ [t])"
    by (rule set_drop_subset)
  then show ?thesis by (simp add: dq_append_def Let_def)
qed

lemma times_series_append [simp]:
  "times_dq (series_append s c) = dq_append (capacity s) (times_dq s) (c_time c)"
  by (simp add: series_append_def)

lemma capacity_series_append [simp]: "capacity (series_append s c) = capacity s"
  by (simp add: series_append_def)

lemma bounded_last_time: "increasing s \<Longrightarrow> bounded_by s (last_time s)"
proof (cases "times_dq s" rule: rev_cases)
  case Nil
  then show ?thesis by (simp add: bounded_by_def last_time_def)
next
  case (snoc ys y)
  assume "increasing s"
  then have "\<forall>x \<in> set ys. x < y"
    using snoc by (simp add: increasing_def sorted_wrt_append)
  then have "\<forall>x \<in> set (times_dq s). x \<le> y"
    using snoc by (auto intro: less_imp_le)
  then show ?thesis using snoc by (simp add: bounded_by_def last_time_def)
qed

lemma series_append_step:
  assumes "increasing s" "bounded_by s lt" "case lt of None \<Rightarrow> True | Some t \<Rightarrow> c_time c > t"
  shows "increasing (series_append s c) \<and> bounded_by (series_append s c) (Some (c_time c))"
proof -
  have lt: "\<forall>x \<in> set (times_dq s). x < c_time c"
    using assms(2,3) by (cases lt) (auto simp: bounded_by_def)
  have "increasing (series_append s c)"
    using assms(1) lt by (simp add: increasing_def sorted_wrt_dq_append)
  moreover have "bounded_by (series_append s c) (Some (c_time c))"
  proof -
    have "x \<le> c_time c" if "x \<in> set (dq_append (capacity s) (times_dq s) (c_time c))" for x
    proof -
      from that set_dq_append[of "capacity s" "times_dq s" "c_time c"]
      have "x = c_time c \<or> x \<in> set (times_dq s)" by blast
      then show ?thesis using lt by (auto intro: less_imp_le)
    qed
    then show ?thesis by (simp add: bounded_by_def)
  qed
  ultimately show ?thesis by simp
qed

lemma accept_increasing:
  assumes "accept tf cs st lt = Inr (st', lt')" "st tf = Some s" "increasing s" "bounded_by s lt"
  shows "\<exists>s'. st' tf = Some s' \<and> increasing s' \<and> bounded_by s' lt' \<and> (\<forall>x. x \<noteq> tf \<longrightarrow> st' x = st x)"
  using assms
proof (induction cs arbitrary: st lt s)
  case Nil
  then show ?case by auto
next
  case (Cons c cs)
  show ?case
  proof (cases "case lt of None \<Rightarrow> True | Some t \<Rightarrow> c_time c > t")
    case True
    let ?s1 = "series_append s c"
    let ?st1 = "st(tf \<mapsto> ?s1)"
    have sa: "store_append st tf c = Inr ?st1" using Cons.prems(2) by (simp add: store_append_def)
    have acc: "accept tf cs ?st1 (Some (c_time c)) = Inr (st', lt')"
      using Cons.prems(1) True sa by simp
    have step: "increasing ?s1 \<and> bounded_by ?s1 (Some (c_time c))"
      using series_append_step[OF Cons.prems(3,4) True] .
    from Cons.IH[OF acc _ conjunct1[OF step] conjunct2[OF step]]
    obtain s' where "st' tf = Some s'" "increasing s'" "bounded_by s' lt'"
      "\<forall>x. x \<noteq> tf \<longrightarrow> st' x = ?st1 x" by auto
    then show ?thesis by auto
  next
    case False
    then have "accept tf cs st lt = Inr (st', lt')" using Cons.prems(1) by simp
    from Cons.IH[OF this Cons.prems(2,3,4)] show ?thesis .
  qed
qed

lemma poll_tf_increasing:
  assumes "poll_tf now_min up i fs = Inr fs'" "store_increasing (store fs)"
  shows "store_increasing (store fs')"
proof -
  obtain tf m where i: "i = (tf, m)" by (cases i)
  from assms(1) i obtain candles s st' lt where
    s: "store fs tf = Some s" and
    acc: "accept tf (filter (closed_valid now_min) candles) (store fs) (last_time s) = Inr (st', lt)" and
    fs': "store fs' = st'"
    by (auto simp: poll_tf_def store_last_time_def Let_def split: sum.splits option.splits prod.splits)
  have inc: "increasing s" using assms(2) s by (auto simp: store_increasing_def ran_def)
  from accept_increasing[OF acc s inc bounded_last_time[OF inc]]
  obtain s' where s': "st' tf = Some s'" "increasing s'" "\<forall>x. x \<noteq> tf \<longrightarrow> st' x = store fs x" by auto
  show ?thesis unfolding store_increasing_def fs'
  proof
    fix r assume "r \<in> ran st'"
    then obtain k where k: "st' k = Some r" by (auto simp: ran_def)
    show "increasing r"
    proof (cases "k = tf")
      case True then show ?thesis using k s' by simp
    next
      case False
      then have "store fs k = Some r" using k s'(3) by simp
      then show ?thesis using assms(2) by (auto simp: store_increasing_def ran_def)
    qed
  qed
qed

lemma poll_once_increasing:
  "store_increasing (store fs) \<Longrightarrow> store_increasing (store (snd (poll_once now_min up ivs fs)))"
  by (induction ivs arbitrary: fs) (auto split: sum.splits dest: poll_tf_increasing)

lemma poll_many_increasing:
  "store_increasing (store fs) \<Longrightarrow> store_increasing (store (poll_many calls ivs fs))"
  by (induction calls arbitrary: fs) (auto simp: poll_once_increasing)

lemma last_time_series_append:
  "capacity s > 0 \<Longrightarrow> last_time (series_append s c) = Some (c_time c)"
  by (simp add: last_time_def dq_append_def Let_def)

lemma length_dq_append: "length (dq_append cap xs x) = min cap (Suc (length xs))"
  unfolding dq_append_def Let_def by (cases cap) (auto simp: min_def)

lemma series_len_series_append:
  "series_len (series_append s c) = min (capacity s) (Suc (series_len s))"
  by (simp add: series_len_def length_dq_append)

lemma ex_poll: "map_option times_dq (store (poll_many [(600, ex_up)] [(''1m'', 1)] ex_feed) ''1m'') = Some [120, 180]"
  by (simp add: ex_feed_def ex_up_def poll_tf_def closed_valid_def flat_candle_def store_last_time_def
      last_time_def store_append_def series_append_def new_series_def dq_append_def)


text \<open>
  C2, as the code has it. \<open>CandleSeries.append\<close> makes no timestamp check: it always
  pushes the record to the tail (evicting the oldest at capacity), so after it the last
  stored timestamp is the one of the record given, whatever it is. Records that are not
  newer than the last stored one are rejected by \<open>poll_once\<close> before it calls append, so
  that for every sequence of \<open>poll_once\<close> calls the stored series stay strictly
  increasing by timestamp.
\<close>

theorem poll_once_guards_append:
  "(capacity s > 0 \<longrightarrow> last_time (series_append s c) = Some (c_time c)) \<and>
   series_len (series_append s c) = min (capacity s) (Suc (series_len s)) \<and>
   (store_increasing (store fs) \<longrightarrow> store_increasing (store (poll_many calls ivs fs)))"
  using last_time_series_append series_len_series_append poll_many_increasing by blast

theorem poll_once_guards_append_witness:
  "store_increasing (store ex_feed) \<and>
   store_increasing (store (poll_many [(600, ex_up)] [(''1m'', 1)] ex_feed)) \<and>
   map_option times_dq (store (poll_many [(600, ex_up)] [(''1m'', 1)] ex_feed) ''1m'') = Some [120, 180] \<and>
   last_time (series_append (new_series 3) (flat_candle 120 1)) = Some 120"
proof -
  have h: "store_increasing (store ex_feed)"
    by (simp add: store_increasing_def ex_feed_def increasing_def series_append_def new_series_def
        dq_append_def flat_candle_def)
  have c: "capacity (new_series 3) > 0" by (simp add: new_series_def)
  from poll_once_guards_append[of "new_series 3" "flat_candle 120 1" ex_feed "[(600, ex_up)]" "[(''1m'', 1)]"] h c
  show ?thesis using ex_poll by (simp add: flat_candle_def)
qed

text \<open>
  C2, as the claim states it, fails: appending a record stamped 60 to a series whose
  last timestamp is 120 stores it, and the series is no longer increasing.
\<close>

theorem append_stale_counterexample:
  "(case store_append (store ex_feed) ''1m'' (flat_candle 60 2) of
      Inl e \<Rightarrow> False
    | Inr st \<Rightarrow> (case st ''1m'' of None \<Rightarrow> False
                 | Some s \<Rightarrow> times_dq s = [120, 60] \<and> \<not> increasing s))"
  by (simp add: ex_feed_def store_append_def series_append_def new_series_def dq_append_def
      flat_candle_def increasing_def)

subsection \<open>What one poll accepts, and where it leaves the watermark\<close>

lemma accept_nothing:
  "\<forall>c \<in> set cs. (case lt of None \<Rightarrow> False | Some t \<Rightarrow> c_time c \<le> t) \<Longrightarrow>
   accept tf cs st lt = Inr (st, lt)"
  by (induction cs) (auto split: option.splits)

lemma last_time_series_append_cases:
  "last_time (series_append s c) = (if capacity s = 0 then None else Some (c_time c))"
  by (simp add: last_time_def dq_append_def Let_def)

lemma accept_result:
  "st tf = Some s \<Longrightarrow>
   accept tf cs st lt =
     Inr (st(tf \<mapsto> foldl series_append s (accepted cs lt)),
          if accepted cs lt = [] then lt else Some (c_time (last (accepted cs lt))))"
proof (induction cs arbitrary: st lt s)
  case Nil
  then show ?case by (simp add: map_upd_triv)
next
  case (Cons c cs)
  show ?case
  proof (cases "case lt of None \<Rightarrow> True | Some t \<Rightarrow> c_time c > t")
    case False
    then show ?thesis using Cons.IH[where st=st and s=s and lt=lt] Cons.prems by simp
  next
    case True
    let ?s1 = "series_append s c"
    let ?st1 = "st(tf \<mapsto> ?s1)"
    have sa: "store_append st tf c = Inr ?st1" using Cons.prems by (simp add: store_append_def)
    have "?st1 tf = Some ?s1" by simp
    with Cons.IH[where st="?st1" and s="?s1" and lt="Some (c_time c)"]
    have "accept tf cs ?st1 (Some (c_time c)) =
       Inr (?st1(tf \<mapsto> foldl series_append ?s1 (accepted cs (Some (c_time c)))),
            if accepted cs (Some (c_time c)) = [] then Some (c_time c)
            else Some (c_time (last (accepted cs (Some (c_time c))))))" by blast
    then show ?thesis using True sa by (auto simp: fun_upd_def)
  qed
qed

lemma capacity_foldl_append [simp]: "capacity (foldl series_append s cs) = capacity s"
  by (induction cs arbitrary: s) (simp_all add: series_append_def)

lemma last_time_foldl_append:
  "last_time (foldl series_append s cs) =
     (if cs = [] then last_time s else if capacity s = 0 then None else Some (c_time (last cs)))"
  by (induction cs rule: rev_induct) (simp_all add: last_time_series_append_cases)

lemma accepted_newest: "c \<in> set (accepted cs lt) \<Longrightarrow> c_time c \<le> c_time (last (accepted cs lt))"
proof (induction cs arbitrary: lt)
  case Nil then show ?case by simp
next
  case (Cons d cs)
  have mono: "\<And>x l. x \<in> set (accepted cs (Some l)) \<Longrightarrow> l < c_time x"
  proof -
    fix x l show "x \<in> set (accepted cs (Some l)) \<Longrightarrow> l < c_time x"
    proof (induction cs arbitrary: l)
      case Nil then show ?case by simp
    next
      case (Cons e es)
      then show ?case by (fastforce split: if_splits)
    qed
  qed
  show ?case
  proof (cases "case lt of None \<Rightarrow> True | Some t \<Rightarrow> c_time d > t")
    case False
    then show ?thesis using Cons by simp
  next
    case True
    then have acc: "accepted (d # cs) lt = d # accepted cs (Some (c_time d))" by simp
    show ?thesis
    proof (cases "accepted cs (Some (c_time d)) = []")
      case True
      then show ?thesis using Cons.prems acc by simp
    next
      case False
      have l: "last (accepted cs (Some (c_time d))) \<in> set (accepted cs (Some (c_time d)))"
        using False by simp
      show ?thesis
      proof (cases "c = d")
        case True
        then show ?thesis using acc False mono[OF l] by simp
      next
        case False
        then have "c \<in> set (accepted cs (Some (c_time d)))" using Cons.prems acc by simp
        from Cons.IH[OF this] show ?thesis using acc \<open>accepted cs (Some (c_time d)) \<noteq> []\<close> by simp
      qed
    qed
  qed
qed

lemma poll_tf_result:
  assumes "store fs tf = Some s" "up tf m (last_ts fs tf) = Inr cs"
  shows "poll_tf now_min up (tf, m) fs =
     Inr (fs\<lparr>store := (store fs)(tf \<mapsto> foldl series_append s (accepted (filter (closed_valid now_min) cs) (last_time s))),
             last_ts := (let acc = accepted (filter (closed_valid now_min) cs) (last_time s) in
                        if acc \<noteq> [] then (last_ts fs)(tf := Some (c_time (last acc)))
                        else (case last_time s of None \<Rightarrow> last_ts fs | Some t \<Rightarrow> (last_ts fs)(tf := Some t)))\<rparr>)"
  using assms accept_result[where st="store fs" and tf=tf and s=s
      and cs="filter (closed_valid now_min) cs" and lt="last_time s"]
  by (simp add: poll_tf_def store_last_time_def Let_def)

text \<open>
  C9, as the code has it. After \<open>poll_once\<close> has processed the fetch of an interval, the
  series holds the accepted records appended in order; when a record was accepted the
  watermark is the timestamp of the newest accepted record; when none was accepted the
  store is unchanged and the watermark is set to the last timestamp stored for the
  interval, and is left as it was only when the series is empty. The watermarks of the
  other intervals are untouched.
\<close>

theorem poll_tf_watermark:
  assumes "store fs tf = Some s" and "up tf m (last_ts fs tf) = Inr cs"
  shows "\<exists>fs'. poll_tf now_min up (tf, m) fs = Inr fs' \<and>
     (let acc = accepted (filter (closed_valid now_min) cs) (last_time s) in
        store fs' = (store fs)(tf \<mapsto> foldl series_append s acc) \<and>
        (acc \<noteq> [] \<longrightarrow> last_ts fs' tf = Some (c_time (last acc)) \<and>
                      (\<forall>c \<in> set acc. c_time c \<le> c_time (last acc))) \<and>
        (acc = [] \<longrightarrow> store fs' = store fs \<and>
                      last_ts fs' tf = (case last_time s of None \<Rightarrow> last_ts fs tf | Some t \<Rightarrow> Some t))) \<and>
     (\<forall>tf'. tf' \<noteq> tf \<longrightarrow> last_ts fs' tf' = last_ts fs tf')"
proof -
  let ?acc = "accepted (filter (closed_valid now_min) cs) (last_time s)"
  have new: "\<forall>c \<in> set ?acc. c_time c \<le> c_time (last ?acc)"
    using accepted_newest by blast
  have triv: "(store fs)(tf \<mapsto> s) = store fs" using assms(1) by (rule map_upd_triv)
  show ?thesis
    unfolding poll_tf_result[where fs=fs and tf=tf and s=s and up=up and m=m and cs=cs, OF assms] Let_def
    using new triv by (auto split: option.splits)
qed

theorem poll_tf_watermark_witness:
  "(case poll_tf 600 ex_up (''1m'', 1) ex_feed of
      Inl e \<Rightarrow> False
    | Inr fs' \<Rightarrow> last_ts fs' ''1m'' = Some 180 \<and>
        map_option times_dq (store fs' ''1m'') = Some [120, 180]) \<and>
   accepted (filter (closed_valid 600) [flat_candle 60 2, flat_candle 120 2, flat_candle 180 2]) (Some 120)
     = [flat_candle 180 2]"
proof -
  let ?s = "series_append (new_series 3) (flat_candle 120 1)"
  have a: "store ex_feed ''1m'' = Some ?s" by (simp add: ex_feed_def)
  have b: "ex_up ''1m'' 1 (last_ts ex_feed ''1m'') = Inr [flat_candle 60 2, flat_candle 120 2, flat_candle 180 2]"
    by (simp add: ex_up_def)
  have lt: "last_time ?s = Some 120"
    by (simp add: last_time_def series_append_def new_series_def dq_append_def flat_candle_def)
  have acc: "accepted (filter (closed_valid 600) [flat_candle 60 2, flat_candle 120 2, flat_candle 180 2]) (Some 120)
     = [flat_candle 180 2]"
    by (simp add: closed_valid_def flat_candle_def)
  from poll_tf_watermark[where fs=ex_feed and tf="''1m''" and s="?s" and up=ex_up and m=1
      and cs="[flat_candle 60 2, flat_candle 120 2, flat_candle 180 2]" and now_min=600, OF a b] obtain fs' where
    p: "poll_tf 600 ex_up (''1m'', 1) ex_feed = Inr fs'" and
    q: "store fs' = (store ex_feed)(''1m'' \<mapsto> foldl series_append ?s [flat_candle 180 2])"
       "last_ts fs' ''1m'' = Some (c_time (flat_candle 180 2))"
    unfolding Let_def lt acc by auto
  have "times_dq (series_append ?s (flat_candle 180 2)) = [120, 180]"
    by (simp add: series_append_def new_series_def dq_append_def flat_candle_def)
  then show ?thesis using p q acc by (simp add: flat_candle_def)
qed

text \<open>
  C9, as the claim states it, fails: with a stored record stamped 120 and no watermark
  yet, a poll that accepts nothing (the store is unchanged) moves the watermark to 120.
\<close>

theorem watermark_moves_counterexample:
  "(case poll_tf 600 ex_up_empty (''1m'', 1) ex_feed of
      Inl e \<Rightarrow> False
    | Inr fs' \<Rightarrow> store fs' = store ex_feed \<and> last_ts ex_feed ''1m'' = None \<and>
        last_ts fs' ''1m'' = Some 120)"
  by (simp add: poll_tf_def ex_up_empty_def ex_feed_def store_last_time_def last_time_def
      series_append_def new_series_def dq_append_def flat_candle_def)

lemma poll_tf_synced:
  assumes "poll_tf now_min up i fs = Inr fs'"
  shows "synced fs' (fst i)" and "synced fs tf \<Longrightarrow> synced fs' tf"
proof -
  obtain t m where i: "i = (t, m)" by (cases i)
  from assms i obtain s cs where s: "store fs t = Some s" and cs: "up t m (last_ts fs t) = Inr cs"
    by (auto simp: poll_tf_def store_last_time_def Let_def split: sum.splits option.splits)
  note r = poll_tf_result[where fs=fs and tf=t and s=s and up=up and m=m and cs=cs and now_min=now_min, OF s cs]
  have fs': "fs' = fs\<lparr>store := (store fs)(t \<mapsto> foldl series_append s (accepted (filter (closed_valid now_min) cs) (last_time s))),
             last_ts := (let acc = accepted (filter (closed_valid now_min) cs) (last_time s) in
                        if acc \<noteq> [] then (last_ts fs)(t := Some (c_time (last acc)))
                        else (case last_time s of None \<Rightarrow> last_ts fs | Some x \<Rightarrow> (last_ts fs)(t := Some x)))\<rparr>"
    using assms r i by simp
  show a: "synced fs' (fst i)"
    unfolding fs' i synced_def Let_def
    by (auto simp: last_time_foldl_append split: option.splits)
  show "synced fs tf \<Longrightarrow> synced fs' tf"
  proof (cases "tf = t")
    case True then show ?thesis using a i by simp
  next
    case False
    assume "synced fs tf"
    then show ?thesis using False unfolding fs' synced_def Let_def
      by (auto split: option.splits)
  qed
qed

lemma poll_once_synced:
  "poll_once now_min up ivs fs = (None, fs1) \<Longrightarrow>
   (\<forall>tf \<in> fst ` set ivs. synced fs1 tf) \<and> (\<forall>tf. synced fs tf \<longrightarrow> synced fs1 tf)"
proof (induction ivs arbitrary: fs)
  case Nil
  then show ?case by simp
next
  case (Cons i ivs)
  from Cons.prems obtain fs' where p: "poll_tf now_min up i fs = Inr fs'"
    and q: "poll_once now_min up ivs fs' = (None, fs1)"
    by (auto split: sum.splits)
  from Cons.IH[OF q] poll_tf_synced[OF p] show ?case by auto
qed

lemma poll_tf_no_new:
  assumes "synced fs tf" "no_new_data now_min up [(tf, m)] fs" "poll_tf now_min up (tf, m) fs = Inr fs'"
  shows "fs' = fs"
proof -
  from assms(1) obtain s where s: "store fs tf = Some s"
    and w: "case last_time s of None \<Rightarrow> True | Some t \<Rightarrow> last_ts fs tf = Some t"
    by (auto simp: synced_def split: option.splits)
  from assms(3) obtain cs where cs: "up tf m (last_ts fs tf) = Inr cs"
    by (auto simp: poll_tf_def split: sum.splits)
  have "\<forall>c \<in> set (filter (closed_valid now_min) cs).
          (case last_time s of None \<Rightarrow> False | Some t \<Rightarrow> c_time c \<le> t)"
    using assms(2) s cs by (auto simp: no_new_data_def)
  from accept_nothing[OF this]
  have acc: "accept tf (filter (closed_valid now_min) cs) (store fs) (last_time s) = Inr (store fs, last_time s)" .
  have "fs' = fs\<lparr>store := store fs,
                 last_ts := (case last_time s of None \<Rightarrow> last_ts fs | Some t \<Rightarrow> (last_ts fs)(tf := Some t))\<rparr>"
    using assms(3) s cs acc by (simp add: poll_tf_def store_last_time_def Let_def)
  moreover have "(case last_time s of None \<Rightarrow> last_ts fs | Some t \<Rightarrow> (last_ts fs)(tf := Some t)) = last_ts fs"
    using w by (auto split: option.splits)
  ultimately show ?thesis by simp
qed

lemma poll_once_no_new:
  "\<forall>tf \<in> fst ` set ivs. synced fs tf \<Longrightarrow> no_new_data now_min up ivs fs \<Longrightarrow>
   snd (poll_once now_min up ivs fs) = fs"
proof (induction ivs)
  case Nil
  then show ?case by simp
next
  case (Cons i ivs)
  obtain tf m where i: "i = (tf, m)" by (cases i)
  have n1: "no_new_data now_min up [(tf, m)] fs" and n2: "no_new_data now_min up ivs fs"
    using Cons.prems(2) i by (auto simp: no_new_data_def)
  have sy: "synced fs tf" using Cons.prems(1) i by simp
  show ?case
  proof (cases "poll_tf now_min up i fs")
    case (Inl e)
    then show ?thesis by simp
  next
    case (Inr fs')
    then have "fs' = fs" using poll_tf_no_new[OF sy n1] i by simp
    then show ?thesis using Inr Cons.IH n2 Cons.prems(1) by simp
  qed
qed

text \<open>
  C4: \<open>poll_once\<close> is idempotent. After a call of \<open>poll_once\<close> that completed, a second
  call for which upstream has no record newer than the stored data leaves the store and
  the watermark as the first call left them (whether or not a fetch of the second call
  fails).
\<close>

theorem poll_once_idempotent:
  assumes "poll_once now1 up1 ivs fs = (None, fs1)" and "no_new_data now2 up2 ivs fs1"
  shows "snd (poll_once now2 up2 ivs fs1) = fs1"
  using poll_once_no_new[OF _ assms(2)] poll_once_synced[OF assms(1)] by blast

lemma ex_poll_first:
  "poll_once 600 ex_up [(''1m'', 1)] ex_feed =
     (None, \<lparr>store = [''1m'' \<mapsto> series_append (series_append (new_series 3) (flat_candle 120 1)) (flat_candle 180 2)],
             last_ts = (\<lambda>tf. None)(''1m'' := Some 180)\<rparr>)"
  by (simp add: ex_feed_def ex_up_def poll_tf_def closed_valid_def flat_candle_def store_last_time_def
      last_time_def store_append_def series_append_def new_series_def dq_append_def)

theorem poll_once_idempotent_witness:
  "fst (poll_once 600 ex_up [(''1m'', 1)] ex_feed) = None \<and>
   no_new_data 660 ex_up [(''1m'', 1)] (snd (poll_once 600 ex_up [(''1m'', 1)] ex_feed)) \<and>
   snd (poll_once 660 ex_up [(''1m'', 1)] (snd (poll_once 600 ex_up [(''1m'', 1)] ex_feed)))
     = snd (poll_once 600 ex_up [(''1m'', 1)] ex_feed) \<and>
   store (snd (poll_once 600 ex_up [(''1m'', 1)] ex_feed)) \<noteq> store ex_feed"
proof -
  let ?fs1 = "snd (poll_once 600 ex_up [(''1m'', 1)] ex_feed)"
  have a: "poll_once 600 ex_up [(''1m'', 1)] ex_feed = (None, ?fs1)"
    unfolding ex_poll_first by simp
  have b: "no_new_data 660 ex_up [(''1m'', 1)] ?fs1"
    unfolding ex_poll_first
    by (simp add: no_new_data_def ex_up_def closed_valid_def flat_candle_def
        last_time_def series_append_def new_series_def dq_append_def)
  have c: "store ?fs1 \<noteq> store ex_feed"
  proof
    assume "store ?fs1 = store ex_feed"
    then have "map_option times_dq (store ?fs1 ''1m'') = map_option times_dq (store ex_feed ''1m'')" by simp
    then show False
      unfolding ex_poll_first
      by (simp add: ex_feed_def series_append_def new_series_def dq_append_def flat_candle_def)
  qed
  have d: "fst (poll_once 600 ex_up [(''1m'', 1)] ex_feed) = None"
    unfolding ex_poll_first by simp
  note e = poll_once_idempotent[OF a b]
  show ?thesis using d b e c by blast
qed

lemma strip_entered [simp]:
  "strip ''entered basis=OPEN'' = ''entered basis=OPEN''"
  "strip ''entered basis=CLOSE'' = ''entered basis=CLOSE''"
  by (simp_all add: strip_def is_space_def)

lemma open_positions_snoc [simp]:
  "open_positions (rows @ [r]) = open_positions rows + (case r of LogEntry p n \<Rightarrow> 1 | LogExit p n \<Rightarrow> - 1)"
  by (induction rows rule: open_positions.induct) (auto split: journal_row.splits)

lemma exits_snoc [simp]:
  "exits (rows @ [r]) = exits rows @ (case r of LogEntry p n \<Rightarrow> [] | LogExit p n \<Rightarrow> [p])"
  by (induction rows rule: exits.induct) (auto split: journal_row.splits)

lemma entries_snoc [simp]:
  "entries (rows @ [r]) = entries rows @ (case r of LogEntry p n \<Rightarrow> [p] | LogExit p n \<Rightarrow> [])"
  by (induction rows rule: entries.induct) (auto split: journal_row.splits)

lemma strategy_exit_idle [simp]: "active s = None \<Longrightarrow> strategy_exit oc price ts s = s"
  by (simp add: strategy_exit_def)

lemma strategy_exit_active:
  "active s = Some p \<Longrightarrow> strategy_exit oc price ts s =
     s\<lparr>journal := journal s @ [LogExit (p\<lparr>exit_price := Some price, outcome := Some oc, closed_at := Some ts\<rparr>) ''exit''],
       ui_log := ui_log s @ [ExitMsg oc price ts], ui_levels := None, active := None\<rparr>"
  by (simp add: strategy_exit_def Let_def)

lemma consistent_exit: "consistent s \<Longrightarrow> consistent (strategy_exit oc price ts s)"
  by (cases "active s") (auto simp: consistent_def strategy_exit_active)

lemma consistent_enter: "consistent s \<Longrightarrow> consistent (strategy_enter sd price ts note s)"
  by (auto simp: consistent_def strategy_enter_def Let_def)

lemma consistent_levels: "consistent (s\<lparr>ui_levels := x\<rparr>) = consistent s"
  by (simp add: consistent_def)

lemma consistent_manage: "consistent s \<Longrightarrow> consistent (manage_position c s)"
  by (cases "active s") (auto simp: manage_position_def Let_def consistent_levels consistent_exit)

lemma consistent_on_live_price: "consistent s \<Longrightarrow> consistent (on_live_price price ts s)"
  by (cases "active s") (auto simp: on_live_price_def consistent_exit)

lemma consistent_on_new_close: "consistent s \<Longrightarrow> consistent (on_new_close c s)"
  by (auto simp: on_new_close_def consistent_manage consistent_enter split: option.splits)

lemma consistent_set_blue: "consistent s \<Longrightarrow> consistent (set_blue h l s)"
  by (simp add: consistent_def set_blue_def)

lemma consistent_step: "consistent s \<Longrightarrow> consistent (step e s)"
  by (cases e) (simp_all add: consistent_on_new_close consistent_on_live_price consistent_set_blue)

lemma consistent_run: "consistent s \<Longrightarrow> consistent (run es s)"
  by (induction es arbitrary: s) (simp_all add: consistent_step)

lemma consistent_new: "consistent (new_strategy ref)"
  by (simp add: consistent_def new_strategy_def)

lemma on_new_close_active:
  "active s = Some p \<Longrightarrow>
   on_new_close c s =
     (if c_time c < ref_utc s \<or> blue_high s = None \<or> blue_low s = None then s
      else manage_position c s)"
  by (auto simp: on_new_close_def split: option.splits)

lemma manage_position_active:
  "active s = Some p \<Longrightarrow>
   (active (manage_position c s) = Some p \<or> active (manage_position c s) = None) \<and>
   entries (journal (manage_position c s)) = entries (journal s)"
  by (auto simp: manage_position_def Let_def strategy_exit_active)

subsection \<open>One position at a time\<close>

text \<open>
  C1: at most one position is open at any time. Over every sequence of events, the
  journal of an engine that starts consistent (for one, a new engine) shows at most one
  position open, and exactly one when the engine holds a position. While a position is
  active, \<open>on_new_close\<close> does nothing but the stop/target check of
  \<open>_manage_position\<close> (and not even that before the reference time or without levels),
  whatever the record: the position held afterwards is the same one or none, and no
  entry is written.
\<close>

theorem one_position_at_a_time:
  "(consistent s \<longrightarrow>
      consistent (run es s) \<and> open_positions (journal (run es s)) \<le> 1 \<and>
      0 \<le> open_positions (journal (run es s))) \<and>
   consistent (new_strategy ref) \<and>
   (active s = Some p \<longrightarrow>
      on_new_close c s =
        (if c_time c < ref_utc s \<or> blue_high s = None \<or> blue_low s = None then s
         else manage_position c s) \<and>
      (active (on_new_close c s) = Some p \<or> active (on_new_close c s) = None) \<and>
      entries (journal (on_new_close c s)) = entries (journal s))"
proof -
  have a: "consistent (run es s) \<and> open_positions (journal (run es s)) \<le> 1 \<and>
      0 \<le> open_positions (journal (run es s))" if "consistent s"
  proof -
    have "consistent (run es s)" using that by (rule consistent_run)
    then show ?thesis by (auto simp: consistent_def split: if_splits)
  qed
  have b: "on_new_close c s =
        (if c_time c < ref_utc s \<or> blue_high s = None \<or> blue_low s = None then s
         else manage_position c s) \<and>
      (active (on_new_close c s) = Some p \<or> active (on_new_close c s) = None) \<and>
      entries (journal (on_new_close c s)) = entries (journal s)" if "active s = Some p"
    using on_new_close_active[OF that, of c] manage_position_active[OF that, of c] that
    by auto
  show ?thesis using a b consistent_new by blast
qed

lemma ex_long_active:
  "active ex_long = Some \<lparr>side = Long, entry = 1.060, stop = 1.059, target = 1.062,
     capital = 100, opened_at = 60, exit_price = None, closed_at = None, outcome = None\<rparr>"
  by (simp add: ex_long_def ex_idle_def ex_bar_def on_new_close_def set_blue_def new_strategy_def
      strategy_enter_def Let_def)

lemma ex_long_journal:
  "journal ex_long = [LogEntry \<lparr>side = Long, entry = 1.060, stop = 1.059, target = 1.062,
     capital = 100, opened_at = 60, exit_price = None, closed_at = None, outcome = None\<rparr> ''entered basis=OPEN'']"
  by (simp add: ex_long_def ex_idle_def ex_bar_def on_new_close_def set_blue_def new_strategy_def
      strategy_enter_def Let_def)

lemma ex_long_fields:
  "ref_utc ex_long = 0" "blue_high ex_long = Some 1.050" "blue_low ex_long = Some 1.040"
  "prioritize_stop_on_tie ex_long = True" "max_positions ex_long = 1"
  "risk_step ex_long = 0.001" "rr ex_long = 2"
  by (simp_all add: ex_long_def ex_idle_def ex_bar_def on_new_close_def set_blue_def new_strategy_def
      strategy_enter_def Let_def)

theorem one_position_at_a_time_witness:
  "consistent ex_idle \<and>
   consistent (run [NewClose (ex_bar 60 1.060 1.061 1.0595 1.0605),
                    NewClose (ex_bar 120 1.0605 1.0615 1.060 1.061)] ex_idle) \<and>
   open_positions (journal (run [NewClose (ex_bar 60 1.060 1.061 1.0595 1.0605),
                                 NewClose (ex_bar 120 1.0605 1.0615 1.060 1.061)] ex_idle)) = 1 \<and>
   active (on_new_close (ex_bar 120 1.0605 1.0615 1.060 1.061) ex_long) = active ex_long \<and>
   entries (journal (on_new_close (ex_bar 120 1.0605 1.0615 1.060 1.061) ex_long)) = entries (journal ex_long)"
proof -
  let ?c = "ex_bar 120 1.0605 1.0615 1.060 1.061"
  let ?es = "[NewClose (ex_bar 60 1.060 1.061 1.0595 1.0605), NewClose ?c]"
  have h: "consistent ex_idle"
    by (simp add: consistent_def ex_idle_def set_blue_def new_strategy_def)
  have m: "manage_position ?c ex_long = ex_long"
    by (simp add: manage_position_def ex_long_active ex_long_fields ex_bar_def Let_def)
  have r: "run ?es ex_idle = on_new_close ?c ex_long" by (simp add: ex_long_def)
  note t = one_position_at_a_time[of ex_idle ?es 0 "\<lparr>side = Long, entry = 1.060, stop = 1.059,
     target = 1.062, capital = 100, opened_at = 60, exit_price = None, closed_at = None,
     outcome = None\<rparr>" ?c]
  have n: "on_new_close ?c ex_long = ex_long"
    using one_position_at_a_time[of ex_long "[]" 0 "\<lparr>side = Long, entry = 1.060, stop = 1.059,
     target = 1.062, capital = 100, opened_at = 60, exit_price = None, closed_at = None,
     outcome = None\<rparr>" ?c] ex_long_active m
    by (simp add: ex_long_fields ex_bar_def)
  have "open_positions (journal (run ?es ex_idle)) = 1"
    unfolding r n by (simp add: ex_long_journal)
  moreover have "consistent (run ?es ex_idle)" using t h by blast
  ultimately show ?thesis using h n by simp
qed

subsection \<open>Entry\<close>

lemma enter_idle:
  "active s = None \<Longrightarrow> 0 < max_positions s \<Longrightarrow>
   strategy_enter sd price ts note s =
     s\<lparr>active := Some \<lparr>side = sd, entry = price,
            stop = (if sd = Long then price - risk_step s else price + risk_step s),
            target = (if sd = Long then price + rr s * risk_step s else price - rr s * risk_step s),
            capital = trade_capital s, opened_at = ts, exit_price = None, closed_at = None,
            outcome = None\<rparr>,
       ui_levels := Some (price, (if sd = Long then price - risk_step s else price + risk_step s),
            (if sd = Long then price + rr s * risk_step s else price - rr s * risk_step s), sd),
       ui_log := ui_log s @ [EnterMsg sd price
            (if sd = Long then price - risk_step s else price + risk_step s)
            (if sd = Long then price + rr s * risk_step s else price - rr s * risk_step s)
            (trade_capital s) ts note],
       journal := journal s @ [LogEntry \<lparr>side = sd, entry = price,
            stop = (if sd = Long then price - risk_step s else price + risk_step s),
            target = (if sd = Long then price + rr s * risk_step s else price - rr s * risk_step s),
            capital = trade_capital s, opened_at = ts, exit_price = None, closed_at = None,
            outcome = None\<rparr> (strip (''entered '' @ note))]\<rparr>"
  by (simp add: strategy_enter_def Let_def)

lemma on_new_close_long_open:
  assumes "active s = None" "blue_high s = Some bh" "blue_low s = Some bl" "0 < max_positions s"
    "ref_utc s \<le> c_time c" "bh < c_open c"
  shows "on_new_close c s = strategy_enter Long (c_open c) (c_time c) ''basis=OPEN'' s"
  using assms by (simp add: on_new_close_def)

lemma on_new_close_idle_cases:
  assumes "active s = None" "blue_high s = Some bh" "blue_low s = Some bl" "0 < max_positions s"
    "ref_utc s \<le> c_time c"
  shows "on_new_close c s =
     (if bh < c_open c then strategy_enter Long (c_open c) (c_time c) ''basis=OPEN'' s
      else if bh < c_close c then strategy_enter Long (c_close c) (c_time c) ''basis=CLOSE'' s
      else if c_open c < bl then strategy_enter Short (c_open c) (c_time c) ''basis=OPEN'' s
      else if c_close c < bl then strategy_enter Short (c_close c) (c_time c) ''basis=CLOSE'' s
      else s)"
  using assms by (simp add: on_new_close_def)

text \<open>
  C6, as the code has it. With the levels 1.050 and 1.040, risk step 0.001 and risk/reward
  2, an idle engine that receives a record opening at 1.060, at or after the reference
  time, enters long at 1.060 with stop 1.059 and target 1.062 on the basis OPEN (the
  journal row says \<open>entered basis=OPEN\<close>). In general the long side is tested before the
  short side and, on each side, the open before the close: the entry is long at the open
  (OPEN) when the open is above the upper level; otherwise long at the close (CLOSE) when
  the close is above the upper level, also when the open is below the lower level;
  otherwise short at the open (OPEN) when the open is below the lower level; otherwise
  short at the close (CLOSE) when the close is below the lower level; otherwise nothing
  happens. So the open is the basis when both triggers of one side hold, but a
  close-based long trigger comes before an open-based short trigger. An entry sets stop
  and target one risk step and risk/reward risk steps away from the entry price.
\<close>

theorem entry_rule:
  "(active s = None \<and> blue_high s = Some 1.050 \<and> blue_low s = Some 1.040 \<and>
    risk_step s = 0.001 \<and> rr s = 2 \<and> 0 < max_positions s \<and>
    ref_utc s \<le> c_time c \<and> c_open c = 1.060 \<longrightarrow>
      active (on_new_close c s) = Some \<lparr>side = Long, entry = 1.060, stop = 1.059,
        target = 1.062, capital = trade_capital s, opened_at = c_time c, exit_price = None,
        closed_at = None, outcome = None\<rparr> \<and>
      journal (on_new_close c s) = journal s @ [LogEntry \<lparr>side = Long, entry = 1.060,
        stop = 1.059, target = 1.062, capital = trade_capital s, opened_at = c_time c,
        exit_price = None, closed_at = None, outcome = None\<rparr> ''entered basis=OPEN''] \<and>
      ui_log (on_new_close c s) = ui_log s @
        [EnterMsg Long 1.060 1.059 1.062 (trade_capital s) (c_time c) ''basis=OPEN'']) \<and>
   (active s = None \<and> blue_high s = Some bh \<and> blue_low s = Some bl \<and> 0 < max_positions s \<and>
    ref_utc s \<le> c_time c \<longrightarrow>
      on_new_close c s =
        (if bh < c_open c then strategy_enter Long (c_open c) (c_time c) ''basis=OPEN'' s
         else if bh < c_close c then strategy_enter Long (c_close c) (c_time c) ''basis=CLOSE'' s
         else if c_open c < bl then strategy_enter Short (c_open c) (c_time c) ''basis=OPEN'' s
         else if c_close c < bl then strategy_enter Short (c_close c) (c_time c) ''basis=CLOSE'' s
         else s)) \<and>
   (active s = None \<and> 0 < max_positions s \<longrightarrow>
      strategy_enter sd price ts note s =
        s\<lparr>active := Some \<lparr>side = sd, entry = price,
               stop = (if sd = Long then price - risk_step s else price + risk_step s),
               target = (if sd = Long then price + rr s * risk_step s else price - rr s * risk_step s),
               capital = trade_capital s, opened_at = ts, exit_price = None, closed_at = None,
               outcome = None\<rparr>,
          ui_levels := Some (price, (if sd = Long then price - risk_step s else price + risk_step s),
               (if sd = Long then price + rr s * risk_step s else price - rr s * risk_step s), sd),
          ui_log := ui_log s @ [EnterMsg sd price
               (if sd = Long then price - risk_step s else price + risk_step s)
               (if sd = Long then price + rr s * risk_step s else price - rr s * risk_step s)
               (trade_capital s) ts note],
          journal := journal s @ [LogEntry \<lparr>side = sd, entry = price,
               stop = (if sd = Long then price - risk_step s else price + risk_step s),
               target = (if sd = Long then price + rr s * risk_step s else price - rr s * risk_step s),
               capital = trade_capital s, opened_at = ts, exit_price = None, closed_at = None,
               outcome = None\<rparr> (strip (''entered '' @ note))]\<rparr>)"
proof (intro conjI impI)
  assume h: "active s = None \<and> blue_high s = Some 1.050 \<and> blue_low s = Some 1.040 \<and>
    risk_step s = 0.001 \<and> rr s = 2 \<and> 0 < max_positions s \<and>
    ref_utc s \<le> c_time c \<and> c_open c = 1.060"
  then have e: "on_new_close c s = strategy_enter Long (c_open c) (c_time c) ''basis=OPEN'' s"
    by (intro on_new_close_long_open[where bh="1.050" and bl="1.040"]) simp_all
  show "active (on_new_close c s) = Some \<lparr>side = Long, entry = 1.060, stop = 1.059,
        target = 1.062, capital = trade_capital s, opened_at = c_time c, exit_price = None,
        closed_at = None, outcome = None\<rparr>"
    unfolding e using h by (simp add: enter_idle)
  show "journal (on_new_close c s) = journal s @ [LogEntry \<lparr>side = Long, entry = 1.060,
        stop = 1.059, target = 1.062, capital = trade_capital s, opened_at = c_time c,
        exit_price = None, closed_at = None, outcome = None\<rparr> ''entered basis=OPEN'']"
    unfolding e using h by (simp add: enter_idle)
  show "ui_log (on_new_close c s) = ui_log s @
        [EnterMsg Long 1.060 1.059 1.062 (trade_capital s) (c_time c) ''basis=OPEN'']"
    unfolding e using h by (simp add: enter_idle)
next
  assume "active s = None \<and> blue_high s = Some bh \<and> blue_low s = Some bl \<and> 0 < max_positions s \<and>
    ref_utc s \<le> c_time c"
  then show "on_new_close c s =
        (if bh < c_open c then strategy_enter Long (c_open c) (c_time c) ''basis=OPEN'' s
         else if bh < c_close c then strategy_enter Long (c_close c) (c_time c) ''basis=CLOSE'' s
         else if c_open c < bl then strategy_enter Short (c_open c) (c_time c) ''basis=OPEN'' s
         else if c_close c < bl then strategy_enter Short (c_close c) (c_time c) ''basis=CLOSE'' s
         else s)"
    by (intro on_new_close_idle_cases) simp_all
next
  assume "active s = None \<and> 0 < max_positions s"
  then show "strategy_enter sd price ts note s =
        s\<lparr>active := Some \<lparr>side = sd, entry = price,
               stop = (if sd = Long then price - risk_step s else price + risk_step s),
               target = (if sd = Long then price + rr s * risk_step s else price - rr s * risk_step s),
               capital = trade_capital s, opened_at = ts, exit_price = None, closed_at = None,
               outcome = None\<rparr>,
          ui_levels := Some (price, (if sd = Long then price - risk_step s else price + risk_step s),
               (if sd = Long then price + rr s * risk_step s else price - rr s * risk_step s), sd),
          ui_log := ui_log s @ [EnterMsg sd price
               (if sd = Long then price - risk_step s else price + risk_step s)
               (if sd = Long then price + rr s * risk_step s else price - rr s * risk_step s)
               (trade_capital s) ts note],
          journal := journal s @ [LogEntry \<lparr>side = sd, entry = price,
               stop = (if sd = Long then price - risk_step s else price + risk_step s),
               target = (if sd = Long then price + rr s * risk_step s else price - rr s * risk_step s),
               capital = trade_capital s, opened_at = ts, exit_price = None, closed_at = None,
               outcome = None\<rparr> (strip (''entered '' @ note))]\<rparr>"
    by (intro enter_idle) simp_all
qed

lemma ex_idle_fields:
  "active ex_idle = None" "blue_high ex_idle = Some 1.050" "blue_low ex_idle = Some 1.040"
  "risk_step ex_idle = 0.001" "rr ex_idle = 2" "max_positions ex_idle = 1" "ref_utc ex_idle = 0"
  "trade_capital ex_idle = 100" "journal ex_idle = []" "prioritize_stop_on_tie ex_idle = True"
  by (simp_all add: ex_idle_def set_blue_def new_strategy_def)

theorem entry_rule_witness:
  "active (on_new_close (ex_bar 60 1.060 1.065 1.055 1.064) ex_idle) =
     Some \<lparr>side = Long, entry = 1.060, stop = 1.059, target = 1.062, capital = 100,
           opened_at = 60, exit_price = None, closed_at = None, outcome = None\<rparr> \<and>
   journal (on_new_close (ex_bar 60 1.060 1.065 1.055 1.064) ex_idle) =
     [LogEntry \<lparr>side = Long, entry = 1.060, stop = 1.059, target = 1.062, capital = 100,
        opened_at = 60, exit_price = None, closed_at = None, outcome = None\<rparr> ''entered basis=OPEN''] \<and>
   on_new_close (ex_bar 60 1.030 1.035 1.025 1.032) ex_idle =
     strategy_enter Short 1.030 60 ''basis=OPEN'' ex_idle \<and>
   map_option target (active (strategy_enter Short 1.030 60 ''basis=OPEN'' ex_idle)) = Some 1.028"
proof -
  let ?c = "ex_bar 60 1.060 1.065 1.055 1.064"
  let ?d = "ex_bar 60 1.030 1.035 1.025 1.032"
  have c: "c_open ?c = 1.060" "c_time ?c = 60" "c_close ?c = 1.064" by (simp_all add: ex_bar_def)
  have d: "c_open ?d = 1.030" "c_time ?d = 60" "c_close ?d = 1.032" by (simp_all add: ex_bar_def)
  note t1 = entry_rule[of ex_idle ?c "1.050" "1.040"]
  note t2 = entry_rule[of ex_idle ?d "1.050" "1.040" Short "1.030" 60 "''basis=OPEN''"]
  have p1: "active ex_idle = None \<and> blue_high ex_idle = Some 1.050 \<and> blue_low ex_idle = Some 1.040 \<and>
    risk_step ex_idle = 0.001 \<and> rr ex_idle = 2 \<and> 0 < max_positions ex_idle \<and>
    ref_utc ex_idle \<le> c_time ?c \<and> c_open ?c = 1.060"
    by (simp add: ex_idle_fields ex_bar_def)
  have p2: "active ex_idle = None \<and> blue_high ex_idle = Some 1.050 \<and> blue_low ex_idle = Some 1.040 \<and>
    0 < max_positions ex_idle \<and> ref_utc ex_idle \<le> c_time ?d"
    by (simp add: ex_idle_fields ex_bar_def)
  have p3: "active ex_idle = None \<and> 0 < max_positions ex_idle"
    by (simp add: ex_idle_fields)
  have a: "active (on_new_close ?c ex_idle) = Some \<lparr>side = Long, entry = 1.060, stop = 1.059,
        target = 1.062, capital = trade_capital ex_idle, opened_at = c_time ?c, exit_price = None,
        closed_at = None, outcome = None\<rparr> \<and>
      journal (on_new_close ?c ex_idle) = journal ex_idle @ [LogEntry \<lparr>side = Long, entry = 1.060,
        stop = 1.059, target = 1.062, capital = trade_capital ex_idle, opened_at = c_time ?c,
        exit_price = None, closed_at = None, outcome = None\<rparr> ''entered basis=OPEN'']"
    using t1 p1 by blast
  have b0: "on_new_close ?d ex_idle =
        (if 1.050 < c_open ?d then strategy_enter Long (c_open ?d) (c_time ?d) ''basis=OPEN'' ex_idle
         else if 1.050 < c_close ?d then strategy_enter Long (c_close ?d) (c_time ?d) ''basis=CLOSE'' ex_idle
         else if c_open ?d < 1.040 then strategy_enter Short (c_open ?d) (c_time ?d) ''basis=OPEN'' ex_idle
         else if c_close ?d < 1.040 then strategy_enter Short (c_close ?d) (c_time ?d) ''basis=CLOSE'' ex_idle
         else ex_idle)"
    using t2 p2 by blast
  have b: "on_new_close ?d ex_idle = strategy_enter Short 1.030 60 ''basis=OPEN'' ex_idle"
    unfolding b0 d by simp
  have e0: "strategy_enter Short 1.030 60 ''basis=OPEN'' ex_idle =
        ex_idle\<lparr>active := Some \<lparr>side = Short, entry = 1.030,
               stop = (if Short = Long then 1.030 - risk_step ex_idle else 1.030 + risk_step ex_idle),
               target = (if Short = Long then 1.030 + rr ex_idle * risk_step ex_idle
                         else 1.030 - rr ex_idle * risk_step ex_idle),
               capital = trade_capital ex_idle, opened_at = 60, exit_price = None, closed_at = None,
               outcome = None\<rparr>,
          ui_levels := Some (1.030, (if Short = Long then 1.030 - risk_step ex_idle else 1.030 + risk_step ex_idle),
               (if Short = Long then 1.030 + rr ex_idle * risk_step ex_idle
                else 1.030 - rr ex_idle * risk_step ex_idle), Short),
          ui_log := ui_log ex_idle @ [EnterMsg Short 1.030
               (if Short = Long then 1.030 - risk_step ex_idle else 1.030 + risk_step ex_idle)
               (if Short = Long then 1.030 + rr ex_idle * risk_step ex_idle
                else 1.030 - rr ex_idle * risk_step ex_idle)
               (trade_capital ex_idle) 60 ''basis=OPEN''],
          journal := journal ex_idle @ [LogEntry \<lparr>side = Short, entry = 1.030,
               stop = (if Short = Long then 1.030 - risk_step ex_idle else 1.030 + risk_step ex_idle),
               target = (if Short = Long then 1.030 + rr ex_idle * risk_step ex_idle
                         else 1.030 - rr ex_idle * risk_step ex_idle),
               capital = trade_capital ex_idle, opened_at = 60, exit_price = None, closed_at = None,
               outcome = None\<rparr> (strip (''entered '' @ ''basis=OPEN''))]\<rparr>"
    using t2 p3 by blast
  have e: "map_option target (active (strategy_enter Short 1.030 60 ''basis=OPEN'' ex_idle)) = Some 1.028"
    unfolding e0 by (simp add: ex_idle_fields)
  show ?thesis using a b e by (simp only: ex_idle_fields c append_Nil simp_thms)
qed

text \<open>
  C6, as the claim states it, fails: a record that opens at 1.030, below the lower level,
  and closes at 1.060, above the upper level, has an open-based and a close-based
  trigger, and the entry is long at the close, 1.060, on the basis CLOSE.
\<close>

theorem entry_cross_side_counterexample:
  "active (on_new_close (ex_bar 60 1.030 1.065 1.025 1.060) ex_idle) =
     Some \<lparr>side = Long, entry = 1.060, stop = 1.059, target = 1.062, capital = 100,
           opened_at = 60, exit_price = None, closed_at = None, outcome = None\<rparr> \<and>
   journal (on_new_close (ex_bar 60 1.030 1.065 1.025 1.060) ex_idle) =
     [LogEntry \<lparr>side = Long, entry = 1.060, stop = 1.059, target = 1.062, capital = 100,
        opened_at = 60, exit_price = None, closed_at = None, outcome = None\<rparr> ''entered basis=CLOSE'']"
  by (simp add: ex_idle_def ex_bar_def on_new_close_def set_blue_def new_strategy_def
      strategy_enter_def Let_def)

subsection \<open>Exit\<close>

lemma manage_position_long:
  assumes "active s = Some p" "side p = Long"
  shows "manage_position c s =
     (if prioritize_stop_on_tie s then
        (if c_low c \<le> stop p then (strategy_exit Loss (stop p) (c_time c) s)\<lparr>ui_levels := None\<rparr>
         else if c_high c \<ge> target p then (strategy_exit Win (target p) (c_time c) s)\<lparr>ui_levels := None\<rparr>
         else s)
      else
        (if c_high c \<ge> target p then (strategy_exit Win (target p) (c_time c) s)\<lparr>ui_levels := None\<rparr>
         else if c_low c \<le> stop p then (strategy_exit Loss (stop p) (c_time c) s)\<lparr>ui_levels := None\<rparr>
         else s))"
  using assms by (simp add: manage_position_def Let_def)

lemma manage_position_exits:
  "exits (journal (manage_position c s)) = exits (journal s) \<or>
   (\<exists>p. exits (journal (manage_position c s)) = exits (journal s) @ [p])"
  by (cases "active s") (auto simp: manage_position_def Let_def strategy_exit_active)

text \<open>
  C7: the tie-break on a single record. For an active long position with stop 1.059 and
  target 1.062, a record with low 1.058 and high 1.063 touches both; the position is
  closed once, as a loss at 1.059 when the stop has priority and as a win at 1.062 when
  it has not. Whatever the record and the position, \<open>_manage_position\<close> records at most
  one exit.
\<close>

theorem exit_tie_break:
  "(active s = Some p \<and> side p = Long \<and> stop p = 1.059 \<and> target p = 1.062 \<and>
    c_low c = 1.058 \<and> c_high c = 1.063 \<longrightarrow>
      active (manage_position c s) = None \<and>
      journal (manage_position c s) = journal s @
        [LogExit (p\<lparr>exit_price := Some (if prioritize_stop_on_tie s then 1.059 else 1.062),
                    outcome := Some (if prioritize_stop_on_tie s then Loss else Win),
                    closed_at := Some (c_time c)\<rparr>) ''exit'']) \<and>
   (exits (journal (manage_position c s)) = exits (journal s) \<or>
    (\<exists>q. exits (journal (manage_position c s)) = exits (journal s) @ [q]))"
proof (intro conjI impI)
  assume h: "active s = Some p \<and> side p = Long \<and> stop p = 1.059 \<and> target p = 1.062 \<and>
    c_low c = 1.058 \<and> c_high c = 1.063"
  then have a: "active s = Some p" and l: "side p = Long" by simp_all
  show "active (manage_position c s) = None"
    unfolding manage_position_long[OF a l] using h by (simp add: strategy_exit_active)
  show "journal (manage_position c s) = journal s @
        [LogExit (p\<lparr>exit_price := Some (if prioritize_stop_on_tie s then 1.059 else 1.062),
                    outcome := Some (if prioritize_stop_on_tie s then Loss else Win),
                    closed_at := Some (c_time c)\<rparr>) ''exit'']"
    unfolding manage_position_long[OF a l] using h by (simp add: strategy_exit_active)
next
  show "exits (journal (manage_position c s)) = exits (journal s) \<or>
    (\<exists>q. exits (journal (manage_position c s)) = exits (journal s) @ [q])"
    by (rule manage_position_exits)
qed

theorem exit_tie_break_witness:
  "journal (manage_position (ex_bar 120 1.060 1.063 1.058 1.061) ex_long) = journal ex_long @
     [LogExit \<lparr>side = Long, entry = 1.060, stop = 1.059, target = 1.062, capital = 100,
        opened_at = 60, exit_price = Some 1.059, closed_at = Some 120, outcome = Some Loss\<rparr> ''exit''] \<and>
   journal (manage_position (ex_bar 120 1.060 1.063 1.058 1.061)
             (ex_long\<lparr>prioritize_stop_on_tie := False\<rparr>)) = journal ex_long @
     [LogExit \<lparr>side = Long, entry = 1.060, stop = 1.059, target = 1.062, capital = 100,
        opened_at = 60, exit_price = Some 1.062, closed_at = Some 120, outcome = Some Win\<rparr> ''exit''] \<and>
   active (manage_position (ex_bar 120 1.060 1.063 1.058 1.061) ex_long) = None"
proof -
  let ?c = "ex_bar 120 1.060 1.063 1.058 1.061"
  let ?p = "\<lparr>side = Long, entry = 1.060, stop = 1.059, target = 1.062, capital = 100,
        opened_at = 60, exit_price = None, closed_at = None, outcome = None\<rparr> :: position"
  let ?s2 = "ex_long\<lparr>prioritize_stop_on_tie := False\<rparr>"
  have h1: "active ex_long = Some ?p \<and> side ?p = Long \<and> stop ?p = 1.059 \<and> target ?p = 1.062 \<and>
    c_low ?c = 1.058 \<and> c_high ?c = 1.063"
    by (simp add: ex_long_active ex_bar_def)
  have h2: "active ?s2 = Some ?p \<and> side ?p = Long \<and> stop ?p = 1.059 \<and> target ?p = 1.062 \<and>
    c_low ?c = 1.058 \<and> c_high ?c = 1.063"
    by (simp add: ex_long_active ex_bar_def)
  have a: "active (manage_position ?c ex_long) = None \<and>
      journal (manage_position ?c ex_long) = journal ex_long @
        [LogExit (?p\<lparr>exit_price := Some (if prioritize_stop_on_tie ex_long then 1.059 else 1.062),
                    outcome := Some (if prioritize_stop_on_tie ex_long then Loss else Win),
                    closed_at := Some (c_time ?c)\<rparr>) ''exit'']"
    using exit_tie_break[of ex_long ?p ?c] h1 by blast
  have b: "journal (manage_position ?c ?s2) = journal ?s2 @
        [LogExit (?p\<lparr>exit_price := Some (if prioritize_stop_on_tie ?s2 then 1.059 else 1.062),
                    outcome := Some (if prioritize_stop_on_tie ?s2 then Loss else Win),
                    closed_at := Some (c_time ?c)\<rparr>) ''exit'']"
    using exit_tie_break[of ?s2 ?p ?c] h2 by blast
  have t: "c_time ?c = 120" by (simp add: ex_bar_def)
  have f: "prioritize_stop_on_tie ?s2 = False" "journal ?s2 = journal ex_long" by simp_all
  show ?thesis using a b unfolding t f ex_long_fields by simp
qed

subsection \<open>A live tick that crosses the target\<close>











subsection \<open>What the ingestion paths store\<close>

lemma accepted_subset: "set (accepted cs lt) \<subseteq> set cs"
  by (induction cs arbitrary: lt) auto

lemma poll_accepts_only_closed:
  "c \<in> set (accepted (filter (closed_valid now_min) cs) lt) \<Longrightarrow> closed_valid now_min c"
  using accepted_subset[of "filter (closed_valid now_min) cs" lt] by auto

text \<open>
  C3 at the start of \<open>main\<close>: started at minute 600 with the reference time at 300, the
  backfill stores the record stamped 600, whose minute is the current one, and the
  watermark is put on it. (\<open>poll_once\<close> stores closed and valid records only.)
\<close>

theorem startup_stores_provisional:
  "(case main_startup 300 600 ex_fetch1 ex_fetch2 of
      Inl e \<Rightarrow> False
    | Inr fs \<Rightarrow>
        (case store fs ''1m'' of
           None \<Rightarrow> False
         | Some s \<Rightarrow> times_dq s = [240, 300, 360, 420, 480, 540, 600] \<and>
             candle_at s 6 = flat_candle 600 1 \<and>
             \<not> closed_valid 600 (candle_at s 6)) \<and>
        last_ts fs ''1m'' = Some 600)"
  by (simp add: main_startup_def ex_fetch1_def ex_fetch2_def new_store_def new_series_def lastn_def
      flat_candle_def store_append_def series_append_def dq_append_def last_time_def
      candle_at_def closed_valid_def Let_def)

subsection \<open>The verifier\<close>

lemma wf_new_series: "wf_series (new_series n)"
  by (simp add: wf_series_def new_series_def)

lemma wf_series_append: "wf_series s \<Longrightarrow> wf_series (series_append s c)"
  by (simp add: wf_series_def series_append_def length_dq_append)

lemma patch1_len [simp]: "series_len (patch1 s idx a) = series_len s"
  by (simp add: patch1_def series_len_def)

lemma patch1_capacity [simp]: "capacity (patch1 s idx a) = capacity s"
  by (simp add: patch1_def)

lemma patch1_wf: "wf_series s \<Longrightarrow> wf_series (patch1 s idx a)"
  by (simp add: patch1_def wf_series_def)

lemma candle_at_patch1:
  "wf_series s \<Longrightarrow> idx < series_len s \<Longrightarrow>
   candle_at (patch1 s idx a) i = (if i = idx then a else candle_at s i)"
  by (simp add: candle_at_def patch1_def wf_series_def series_len_def)

lemma run_steps_Inr:
  "f s = Inr s' \<Longrightarrow> run_steps (f # fs) s = run_steps fs s'"
  by simp

lemma patch_slot_ok:
  assumes "wf_series s" "idx < series_len s"
  shows "patch_slot idx a s = (patch1 s idx a, None)"
  using assms
  by (simp add: patch_slot_def dq_set_def wf_series_def series_len_def patch1_def)

lemma patched_len [simp]: "series_len (patched s ms) = series_len s"
  unfolding patched_def by (induction ms arbitrary: s) (auto)

lemma patched_capacity [simp]: "capacity (patched s ms) = capacity s"
  unfolding patched_def by (induction ms arbitrary: s) (auto)

lemma patched_wf: "wf_series s \<Longrightarrow> wf_series (patched s ms)"
  unfolding patched_def by (induction ms arbitrary: s) (auto intro: patch1_wf)

lemma patched_snoc: "patched s (ms @ [(idx, a)]) = patch1 (patched s ms) idx a"
  by (simp add: patched_def)

lemma patched_Cons: "patched s ((idx, a) # ms) = patched (patch1 s idx a) ms"
  by (simp add: patched_def)

lemma patch_all_ok:
  "wf_series s \<Longrightarrow> \<forall>(idx, a) \<in> set ms. idx < series_len s \<Longrightarrow>
   patch_all ms (s, corr) = ((patched s ms, corr @ map snd ms), None)"
proof (induction ms arbitrary: s corr)
  case Nil
  then show ?case by (simp add: patched_def)
next
  case (Cons m ms)
  obtain idx a where m: "m = (idx, a)" by (cases m)
  have i: "idx < series_len s" using Cons.prems(2) m by simp
  have r: "\<forall>(j, b) \<in> set ms. j < series_len (patch1 s idx a)" using Cons.prems(2) by simp
  have w: "wf_series (patch1 s idx a)" using Cons.prems(1) by (rule patch1_wf)
  show ?case
    unfolding m using patch_slot_ok[OF Cons.prems(1) i, of a] Cons.IH[OF w r, of "corr @ [a]"]
    by (simp add: patched_Cons)
qed

lemma candle_at_patched_other:
  "wf_series s \<Longrightarrow> \<forall>(idx, a) \<in> set ms. idx < series_len s \<Longrightarrow> i \<notin> fst ` set ms \<Longrightarrow>
   candle_at (patched s ms) i = candle_at s i"
proof (induction ms rule: rev_induct)
  case Nil
  then show ?case by (simp add: patched_def)
next
  case (snoc m ms)
  obtain idx a where m: "m = (idx, a)" by (cases m)
  have "candle_at (patched s (ms @ [m])) i = candle_at (patched s ms) i"
  proof -
    have w: "wf_series (patched s ms)" using snoc.prems(1) by (rule patched_wf)
    have l: "idx < series_len (patched s ms)" using snoc.prems(2) m by simp
    have "i \<noteq> idx" using snoc.prems(3) m by auto
    then show ?thesis unfolding m patched_snoc using candle_at_patch1[OF w l, of a i] by simp
  qed
  then show ?case using snoc by auto
qed

lemma candle_at_patched_flagged:
  "wf_series s \<Longrightarrow> \<forall>(idx, a) \<in> set ms. idx < series_len s \<Longrightarrow> distinct (map fst ms) \<Longrightarrow>
   (idx, a) \<in> set ms \<Longrightarrow> candle_at (patched s ms) idx = a"
proof (induction ms rule: rev_induct)
  case Nil
  then show ?case by simp
next
  case (snoc m ms)
  obtain j b where m: "m = (j, b)" by (cases m)
  have j: "j < series_len (patched s ms)" "wf_series (patched s ms)"
    using snoc.prems m by (auto intro: patched_wf)
  have eq: "candle_at (patched s (ms @ [m])) idx = (if idx = j then b else candle_at (patched s ms) idx)"
    unfolding m patched_snoc using candle_at_patch1[OF j(2) j(1)] .
  show ?case
  proof (cases "idx = j")
    case True
    have "a = b"
    proof (rule ccontr)
      assume "a \<noteq> b"
      then have "(idx, a) \<in> set ms" using snoc.prems(4) m True by auto
      then have "j \<in> fst ` set ms" using True by force
      then show False using snoc.prems(3) m by auto
    qed
    then show ?thesis using eq True by simp
  next
    case False
    then have "(idx, a) \<in> set ms" using snoc.prems(4) m by auto
    then show ?thesis using eq False snoc by auto
  qed
qed

lemma or_else_Inr [simp]: "or_else (Inr x) (Inr y) = Inr (x \<or> y)"
  by (simp add: or_else_def)

lemma mismatch_ok:
  assumes "wf_series s" "idx < series_len s"
  shows "mismatch neq s idx a = Inr (differs neq s idx a)"
  using assms
  by (simp add: mismatch_def field_neq_def time_neq_def trades_neq_def dq_get_def differs_def
      wf_series_def series_len_def)

lemma find_mismatches_ok:
  "wf_series s \<Longrightarrow> \<forall>(idx, a) \<in> set xs. idx < series_len s \<Longrightarrow>
   find_mismatches neq s xs = Inr (filter (\<lambda>(idx, a). differs neq s idx a) xs)"
  by (induction xs) (auto simp: mismatch_ok)

lemma differs_vwap:
  "differs neq (s\<lparr>vwaps := v\<rparr>) idx a = differs neq s idx a"
  "differs neq s idx (a\<lparr>c_vwap := w\<rparr>) = differs neq s idx a"
  by (simp_all add: differs_def)

lemma length_lastn: "length (lastn k xs) = min k (length xs)"
  by (simp add: lastn_def)

lemma flagged_range:
  "(idx, a) \<in> set (flagged neq now_min cs s1) \<Longrightarrow> series_len s1 - 5 \<le> idx \<and> idx < series_len s1"
  by (auto simp: flagged_def dest!: set_zip_leftD)

lemma flagged_distinct: "distinct (map fst (flagged neq now_min cs s1))"
proof -
  have "distinct (map fst (zip [series_len s1 - 5 ..< series_len s1] (lastn 5 (filter (closed_valid now_min) cs))))"
    by (simp add: map_fst_zip_take)
  then show ?thesis unfolding flagged_def by (rule distinct_map_filter)
qed

lemma verify_ok:
  assumes "st ''1m'' = Some s1" "wf_series s1" "5 \<le> series_len s1"
    "5 \<le> length (filter (closed_valid now_min) cs)"
  shows "verify_last5_and_fix neq now_min (Inr cs) (st, corr) =
     (if flagged neq now_min cs s1 = [] then (Clean, (st, corr))
      else (Fixed (length (flagged neq now_min cs s1)),
            (st(''1m'' \<mapsto> patched s1 (flagged neq now_min cs s1)),
             corr @ map snd (flagged neq now_min cs s1))))"
    and "find_mismatches neq s1
       (zip [series_len s1 - 5 ..< series_len s1] (lastn 5 (filter (closed_valid now_min) cs)))
       = Inr (flagged neq now_min cs s1)"
proof -
  let ?fetched = "lastn 5 (filter (closed_valid now_min) cs)"
  let ?z = "zip [series_len s1 - 5 ..< series_len s1] ?fetched"
  have len: "length ?fetched = 5" using assms(4) by (simp add: length_lastn)
  have rng: "\<forall>(idx, a) \<in> set ?z. idx < series_len s1"
    by (auto dest!: set_zip_leftD)
  show fm: "find_mismatches neq s1 ?z = Inr (flagged neq now_min cs s1)"
    unfolding flagged_def by (rule find_mismatches_ok[OF assms(2) rng])
  have rng2: "\<forall>(idx, a) \<in> set (flagged neq now_min cs s1). idx < series_len s1"
    using flagged_range by blast
  note pa = patch_all_ok[OF assms(2) rng2, of corr]
  show "verify_last5_and_fix neq now_min (Inr cs) (st, corr) =
     (if flagged neq now_min cs s1 = [] then (Clean, (st, corr))
      else (Fixed (length (flagged neq now_min cs s1)),
            (st(''1m'' \<mapsto> patched s1 (flagged neq now_min cs s1)),
             corr @ map snd (flagged neq now_min cs s1))))"
    using assms(1,3) len fm pa
    by (simp add: verify_last5_and_fix_def Let_def)
qed

lemma ex_series6_eq:
  "ex_series6 = \<lparr>capacity = 10, times_dq = [60, 120, 180, 240, 300, 360],
     opens = [1, 1, 1, 1, 1, 1], highs = [1, 1, 1, 1, 1, 1], lows = [1, 1, 1, 1, 1, 1],
     closes = [1, 1, 1, 1, 1, 1], vols = [1, 1, 1, 1, 1, 1], vwaps = [1, 1, 1, 1, 1, 1],
     trades = [1, 1, 1, 1, 1, 1]\<rparr>"
  by (simp add: ex_series6_def series_append_def new_series_def dq_append_def flat_candle_def)

lemma ex_series6_wf: "wf_series ex_series6" "series_len ex_series6 = 6"
  by (simp_all add: ex_series6_eq wf_series_def series_len_def)

lemma ex_flagged_shift:
  "flagged neq_exact 360 ex_fetched_shift ex_series6 =
     [(1, flat_candle 60 1), (2, flat_candle 120 1), (3, flat_candle 180 1),
      (4, flat_candle 240 1), (5, flat_candle 300 1)]"
  by (simp add: flagged_def series_len_def ex_fetched_shift_def closed_valid_def flat_candle_def
      lastn_def differs_def neq_exact_def ex_series6_eq)



lemma ex_fetched_lens:
  "length (filter (closed_valid 360) ex_fetched_shift) = 5"
  "length (filter (closed_valid 420) ex_fetched_vwap) = 5"
  "length (filter (closed_valid 420) ex_fetched_high) = 5"
  by (simp_all add: ex_fetched_shift_def ex_fetched_vwap_def ex_fetched_high_def closed_valid_def
      flat_candle_def)

lemma patch_frame_core:
  "st ''1m'' = Some s1 \<and> wf_series s1 \<and> 5 \<le> series_len s1 \<and>
   5 \<le> length (filter (closed_valid now_min) cs) \<and> flagged neq now_min cs s1 \<noteq> [] \<longrightarrow>
     find_mismatches neq s1
       (zip [series_len s1 - 5 ..< series_len s1] (lastn 5 (filter (closed_valid now_min) cs)))
       = Inr (flagged neq now_min cs s1) \<and>
     (\<exists>s1'. verify_last5_and_fix neq now_min (Inr cs) (st, corr) =
          (Fixed (length (flagged neq now_min cs s1)),
           (st(''1m'' \<mapsto> s1'), corr @ map snd (flagged neq now_min cs s1))) \<and>
        series_len s1' = series_len s1 \<and> capacity s1' = capacity s1 \<and> wf_series s1' \<and>
        (\<forall>(idx, a) \<in> set (flagged neq now_min cs s1).
           series_len s1 - 5 \<le> idx \<and> idx < series_len s1 \<and> candle_at s1' idx = a) \<and>
        (\<forall>i. i < series_len s1 \<and> i \<notin> fst ` set (flagged neq now_min cs s1) \<longrightarrow>
           candle_at s1' i = candle_at s1 i))"
proof (intro impI)
  assume h: "st ''1m'' = Some s1 \<and> wf_series s1 \<and> 5 \<le> series_len s1 \<and>
   5 \<le> length (filter (closed_valid now_min) cs) \<and> flagged neq now_min cs s1 \<noteq> []"
  let ?ms = "flagged neq now_min cs s1"
  have a: "st ''1m'' = Some s1" and w: "wf_series s1" and n: "5 \<le> series_len s1"
    and f: "5 \<le> length (filter (closed_valid now_min) cs)" and ne: "?ms \<noteq> []"
    using h by simp_all
  have rng: "\<forall>(idx, a) \<in> set ?ms. idx < series_len s1" using flagged_range by blast
  have v: "verify_last5_and_fix neq now_min (Inr cs) (st, corr) =
      (Fixed (length ?ms), (st(''1m'' \<mapsto> patched s1 ?ms), corr @ map snd ?ms))"
    using verify_ok(1)[where st=st and ?s1.0=s1 and now_min=now_min and cs=cs and neq=neq and corr=corr, OF a w n f] ne by simp
  have fl: "\<forall>(idx, a) \<in> set ?ms.
      series_len s1 - 5 \<le> idx \<and> idx < series_len s1 \<and> candle_at (patched s1 ?ms) idx = a"
    using flagged_range candle_at_patched_flagged[OF w rng flagged_distinct] by blast
  have ot: "\<forall>i. i < series_len s1 \<and> i \<notin> fst ` set ?ms \<longrightarrow>
      candle_at (patched s1 ?ms) i = candle_at s1 i"
    using candle_at_patched_other[OF w rng] by blast
  have ex: "\<exists>s1'. verify_last5_and_fix neq now_min (Inr cs) (st, corr) =
          (Fixed (length ?ms), (st(''1m'' \<mapsto> s1'), corr @ map snd ?ms)) \<and>
        series_len s1' = series_len s1 \<and> capacity s1' = capacity s1 \<and> wf_series s1' \<and>
        (\<forall>(idx, a) \<in> set ?ms.
           series_len s1 - 5 \<le> idx \<and> idx < series_len s1 \<and> candle_at s1' idx = a) \<and>
        (\<forall>i. i < series_len s1 \<and> i \<notin> fst ` set ?ms \<longrightarrow> candle_at s1' i = candle_at s1 i)"
    using v fl ot patched_wf[OF w, of ?ms]
    by (intro exI[of _ "patched s1 ?ms"]) simp
  show "find_mismatches neq s1
       (zip [series_len s1 - 5 ..< series_len s1] (lastn 5 (filter (closed_valid now_min) cs)))
       = Inr ?ms \<and>
     (\<exists>s1'. verify_last5_and_fix neq now_min (Inr cs) (st, corr) =
          (Fixed (length ?ms), (st(''1m'' \<mapsto> s1'), corr @ map snd ?ms)) \<and>
        series_len s1' = series_len s1 \<and> capacity s1' = capacity s1 \<and> wf_series s1' \<and>
        (\<forall>(idx, a) \<in> set ?ms.
           series_len s1 - 5 \<le> idx \<and> idx < series_len s1 \<and> candle_at s1' idx = a) \<and>
        (\<forall>i. i < series_len s1 \<and> i \<notin> fst ` set ?ms \<longrightarrow> candle_at s1' i = candle_at s1 i))"
    using verify_ok(2)[where st=st and ?s1.0=s1 and now_min=now_min and cs=cs and neq=neq, OF a w n f] ex by blast
qed


text \<open>
  C10: the frame of a correction. When the verifier flags mismatches, it reports them as
  fixed; each flagged slot lies among the last five and then holds the fetched record in
  all eight fields, the timestamp and the vwap included, whatever the timestamps around
  it; the length and the capacity of the series and every slot that is not flagged are
  as before, the eight deques still have one length, and one correction row per flagged
  slot is written, in order. The vwap is written although the comparison never reads it.
\<close>

theorem verify_patch_frame:
  "(st ''1m'' = Some s1 \<and> wf_series s1 \<and> 5 \<le> series_len s1 \<and>
    5 \<le> length (filter (closed_valid now_min) cs) \<and> flagged neq now_min cs s1 \<noteq> [] \<longrightarrow>
      find_mismatches neq s1
        (zip [series_len s1 - 5 ..< series_len s1] (lastn 5 (filter (closed_valid now_min) cs)))
        = Inr (flagged neq now_min cs s1) \<and>
      (\<exists>s1'. verify_last5_and_fix neq now_min (Inr cs) (st, corr) =
           (Fixed (length (flagged neq now_min cs s1)),
            (st(''1m'' \<mapsto> s1'), corr @ map snd (flagged neq now_min cs s1))) \<and>
         series_len s1' = series_len s1 \<and> capacity s1' = capacity s1 \<and> wf_series s1' \<and>
         (\<forall>(idx, a) \<in> set (flagged neq now_min cs s1).
            series_len s1 - 5 \<le> idx \<and> idx < series_len s1 \<and> candle_at s1' idx = a) \<and>
         (\<forall>i. i < series_len s1 \<and> i \<notin> fst ` set (flagged neq now_min cs s1) \<longrightarrow>
            candle_at s1' i = candle_at s1 i))) \<and>
   mismatch neq (s1\<lparr>vwaps := v\<rparr>) idx (a\<lparr>c_vwap := w\<rparr>) = mismatch neq s1 idx a"
proof (rule conjI)
  show "st ''1m'' = Some s1 \<and> wf_series s1 \<and> 5 \<le> series_len s1 \<and>
    5 \<le> length (filter (closed_valid now_min) cs) \<and> flagged neq now_min cs s1 \<noteq> [] \<longrightarrow>
      find_mismatches neq s1
        (zip [series_len s1 - 5 ..< series_len s1] (lastn 5 (filter (closed_valid now_min) cs)))
        = Inr (flagged neq now_min cs s1) \<and>
      (\<exists>s1'. verify_last5_and_fix neq now_min (Inr cs) (st, corr) =
           (Fixed (length (flagged neq now_min cs s1)),
            (st(''1m'' \<mapsto> s1'), corr @ map snd (flagged neq now_min cs s1))) \<and>
         series_len s1' = series_len s1 \<and> capacity s1' = capacity s1 \<and> wf_series s1' \<and>
         (\<forall>(idx, a) \<in> set (flagged neq now_min cs s1).
            series_len s1 - 5 \<le> idx \<and> idx < series_len s1 \<and> candle_at s1' idx = a) \<and>
         (\<forall>i. i < series_len s1 \<and> i \<notin> fst ` set (flagged neq now_min cs s1) \<longrightarrow>
            candle_at s1' i = candle_at s1 i))"
    by (rule patch_frame_core)
  show "mismatch neq (s1\<lparr>vwaps := v\<rparr>) idx (a\<lparr>c_vwap := w\<rparr>) = mismatch neq s1 idx a"
    by (simp add: mismatch_def)
qed

theorem verify_patch_frame_witness:
  "fst (verify_last5_and_fix neq_exact 360 (Inr ex_fetched_shift) ([''1m'' \<mapsto> ex_series6], []))
     = Fixed 5 \<and>
   snd (snd (verify_last5_and_fix neq_exact 360 (Inr ex_fetched_shift) ([''1m'' \<mapsto> ex_series6], [])))
     = [flat_candle 60 1, flat_candle 120 1, flat_candle 180 1, flat_candle 240 1, flat_candle 300 1] \<and>
   (case fst (snd (verify_last5_and_fix neq_exact 360 (Inr ex_fetched_shift)
                     ([''1m'' \<mapsto> ex_series6], []))) ''1m'' of
      None \<Rightarrow> False
    | Some s \<Rightarrow> series_len s = 6 \<and> candle_at s 0 = flat_candle 60 1 \<and>
        candle_at s 1 = flat_candle 60 1 \<and> candle_at s 5 = flat_candle 300 1)"
proof -
  let ?st = "[''1m'' \<mapsto> ex_series6]"
  let ?ms = "flagged neq_exact 360 ex_fetched_shift ex_series6"
  have h: "?st ''1m'' = Some ex_series6 \<and> wf_series ex_series6 \<and> 5 \<le> series_len ex_series6 \<and>
     5 \<le> length (filter (closed_valid 360) ex_fetched_shift) \<and> ?ms \<noteq> []"
    by (simp add: ex_series6_wf ex_fetched_lens ex_flagged_shift)
  from verify_patch_frame[of ?st ex_series6 360 ex_fetched_shift neq_exact "[]"] h
  obtain s1' where
    v: "verify_last5_and_fix neq_exact 360 (Inr ex_fetched_shift) (?st, []) =
          (Fixed (length ?ms), (?st(''1m'' \<mapsto> s1'), [] @ map snd ?ms))"
    and l: "series_len s1' = series_len ex_series6"
    and fl: "\<forall>(idx, a) \<in> set ?ms. series_len ex_series6 - 5 \<le> idx \<and> idx < series_len ex_series6 \<and>
           candle_at s1' idx = a"
    and ot: "\<forall>i. i < series_len ex_series6 \<and> i \<notin> fst ` set ?ms \<longrightarrow>
           candle_at s1' i = candle_at ex_series6 i"
    by blast
  have c1: "candle_at s1' 1 = flat_candle 60 1" using fl by (simp add: ex_flagged_shift)
  have c5: "candle_at s1' 5 = flat_candle 300 1" using fl by (simp add: ex_flagged_shift)
  have "candle_at s1' 0 = candle_at ex_series6 0"
    using ot by (simp add: ex_flagged_shift ex_series6_wf)
  then have c0: "candle_at s1' 0 = flat_candle 60 1"
    by (simp add: ex_series6_eq candle_at_def flat_candle_def)
  show ?thesis unfolding v using l c0 c1 c5 by (simp add: ex_flagged_shift ex_series6_wf)
qed




end
